theory Spec2Isabelle
  imports Complex_Main
begin

section \<open>Dice roller (diceroller.py)\<close>

text \<open>
  A notation is a Python string.  The model covers the strings whose code points are
  below 256 and reads an Isabelle character as that code point.  On this range the
  pattern class \<^verbatim>\<open>\s\<close> of a Python 3 string pattern holds the code points
  9 to 13, 28 to 31, 32, 133 and 160, and \<^verbatim>\<open>\d\<close> holds the ten ASCII digits.
\<close>

definition is_space :: "char \<Rightarrow> bool" where
  "is_space c = ((of_char c :: nat) \<in> {9, 10, 11, 12, 13, 28, 29, 30, 31, 32, 133, 160})"

definition is_digit :: "char \<Rightarrow> bool" where
  "is_digit c = (48 \<le> (of_char c :: nat) \<and> (of_char c :: nat) \<le> 57)"

text \<open>
  \<^verbatim>\<open>DICE_RE = re.compile(r"^\s*(\d+)[dD](\d+)(?:\+(\d+))?\s*$")\<close>, used with
  \<^verbatim>\<open>DICE_RE.match\<close>.  The three classes of the pattern are pairwise disjoint, so the
  backtracking matcher has one way to split a string: each starred or plussed class takes
  the longest run.  The result is the three groups, as the substrings matched.
\<close>

definition dice_re_match :: "string \<Rightarrow> (string \<times> string \<times> string option) option" where
  "dice_re_match s =
     (let s1 = dropWhile is_space s;
          g1 = takeWhile is_digit s1;
          r1 = dropWhile is_digit s1
      in if g1 = [] then None
         else (case r1 of
                 [] \<Rightarrow> None
               | c # r2 \<Rightarrow>
                   if c \<noteq> CHR ''d'' \<and> c \<noteq> CHR ''D'' then None
                   else
                     (let g2 = takeWhile is_digit r2;
                          r3 = dropWhile is_digit r2
                      in if g2 = [] then None
                         else (case r3 of
                                 [] \<Rightarrow> Some (g1, g2, None)
                               | p # r4 \<Rightarrow>
                                   if p = CHR ''+'' \<and> takeWhile is_digit r4 \<noteq> []
                                      \<and> list_all is_space (dropWhile is_digit r4)
                                   then Some (g1, g2, Some (takeWhile is_digit r4))
                                   else if list_all is_space r3 then Some (g1, g2, None)
                                   else None))))"

text \<open>
  \<^verbatim>\<open>int(group)\<close> on a string of ASCII digits.  Python integers are unbounded, but the
  conversion is not: \<^verbatim>\<open>int\<close> raises \<^verbatim>\<open>ValueError\<close> on a string of more than
  \<^verbatim>\<open>sys.int_max_str_digits\<close> digits, 4300 unless the interpreter is configured
  otherwise; leading zeros count.  \<open>py_int\<close> is \<open>None\<close> where \<^verbatim>\<open>int\<close> raises.
\<close>

definition digit_val :: "char \<Rightarrow> int" where
  "digit_val c = int (of_char c) - 48"

definition digits_value :: "string \<Rightarrow> int" where
  "digits_value ds = foldl (\<lambda>a c. 10 * a + digit_val c) 0 ds"

definition int_max_str_digits :: nat where
  "int_max_str_digits = 4300"

definition py_int :: "string \<Rightarrow> int option" where
  "py_int ds = (if int_max_str_digits < length ds then None else Some (digits_value ds))"


text \<open>\<^verbatim>\<open>str(n)\<close> for an integer.\<close>

fun nat_digits :: "nat \<Rightarrow> string" where
  "nat_digits n =
     (if n < 10 then [char_of (48 + n)]
      else nat_digits (n div 10) @ [char_of (48 + n mod 10)])"

declare nat_digits.simps [simp del]

definition str_int :: "int \<Rightarrow> string" where
  "str_int i = (if i < 0 then CHR ''-'' # nat_digits (nat (- i)) else nat_digits (nat i))"

fun join :: "string \<Rightarrow> string list \<Rightarrow> string" where
  "join sep [] = []"
| "join sep [x] = x"
| "join sep (x # y # ys) = x @ sep @ join sep (y # ys)"





text \<open>
  The three integers of a notation the pattern matches and whose groups \<^verbatim>\<open>int\<close>
  converts: each group has at most 4300 digits.
\<close>

definition dice_params :: "string \<Rightarrow> (int \<times> int \<times> int) option" where
  "dice_params notation =
     (case dice_re_match notation of
        None \<Rightarrow> None
      | Some (g1, g2, g3) \<Rightarrow>
          (case (py_int g1, py_int g2, py_int (case g3 of None \<Rightarrow> ''0'' | Some g \<Rightarrow> g)) of
             (Some x, Some y, Some z) \<Rightarrow> Some (x, y, z)
           | other \<Rightarrow> None))"

subsection \<open>The pattern accepts exactly the notations XdY and XdY+Z\<close>










lemma list_all_takeWhile: "list_all P (takeWhile P xs)"
  by (induction xs) auto

lemma dice_re_match_shape:
  assumes "dice_re_match s = Some (g1, g2, g3)"
  shows "\<exists>ws c ws'. list_all is_space ws \<and> list_all is_space ws'
           \<and> (c = CHR ''d'' \<or> c = CHR ''D'')
           \<and> g1 \<noteq> [] \<and> list_all is_digit g1 \<and> g2 \<noteq> [] \<and> list_all is_digit g2
           \<and> (case g3 of
                 None \<Rightarrow> s = ws @ g1 @ [c] @ g2 @ ws'
               | Some g \<Rightarrow> g \<noteq> [] \<and> list_all is_digit g \<and> s = ws @ g1 @ [c] @ g2 @ ''+'' @ g @ ws')"
proof -
  define s1 where "s1 = dropWhile is_space s"
  define r1 where "r1 = dropWhile is_digit s1"
  have s: "s = takeWhile is_space s @ s1" by (simp add: s1_def)
  have s1: "s1 = takeWhile is_digit s1 @ r1" by (simp add: r1_def)
  from assms obtain c r2 where r1c: "r1 = c # r2" and c: "c = CHR ''d'' \<or> c = CHR ''D''"
    and g1: "g1 = takeWhile is_digit s1" "g1 \<noteq> []"
    by (auto simp: dice_re_match_def Let_def s1_def r1_def split: list.splits if_splits)
  define r3 where "r3 = dropWhile is_digit r2"
  have r2: "r2 = takeWhile is_digit r2 @ r3" by (simp add: r3_def)
  from assms r1c have g2: "g2 = takeWhile is_digit r2" "g2 \<noteq> []"
    by (auto simp: dice_re_match_def Let_def s1_def r1_def split: list.splits if_splits)
  have whole: "s = takeWhile is_space s @ g1 @ [c] @ g2 @ r3"
    using s s1 r1c r2 g1 g2 by simp
  from assms r1c consider
      (plain) "g3 = None" "list_all is_space r3"
    | (plus) r4 where "r3 = CHR ''+'' # r4" "g3 = Some (takeWhile is_digit r4)"
        "takeWhile is_digit r4 \<noteq> []" "list_all is_space (dropWhile is_digit r4)"
    by (auto simp: dice_re_match_def Let_def s1_def r1_def r3_def split: list.splits if_splits)
  then show ?thesis
  proof cases
    case plain
    then show ?thesis
      using whole c g1 g2 list_all_takeWhile [of is_space s] list_all_takeWhile [of is_digit]
      by (intro exI [of _ "takeWhile is_space s"] exI [of _ c] exI [of _ r3]) auto
  next
    case plus
    have "r4 = takeWhile is_digit r4 @ dropWhile is_digit r4" by simp
    then have "s = takeWhile is_space s @ g1 @ [c] @ g2 @ ''+'' @ takeWhile is_digit r4 @ dropWhile is_digit r4"
      using whole plus(1) by simp
    then show ?thesis
      using plus c g1 g2 list_all_takeWhile [of is_space s] list_all_takeWhile [of is_digit]
      by (intro exI [of _ "takeWhile is_space s"] exI [of _ c] exI [of _ "dropWhile is_digit r4"]) auto
  qed
qed

subsection \<open>Rolling\<close>





lemma dice_params_Some_iff:
  "dice_params notation = Some (x, y, z) \<longleftrightarrow>
     (\<exists>g1 g2 g3. dice_re_match notation = Some (g1, g2, g3)
        \<and> length g1 \<le> 4300 \<and> x = digits_value g1
        \<and> length g2 \<le> 4300 \<and> y = digits_value g2
        \<and> (case g3 of None \<Rightarrow> z = 0 | Some g \<Rightarrow> length g \<le> 4300 \<and> z = digits_value g))"
  by (auto simp: dice_params_def py_int_def int_max_str_digits_def digits_value_def digit_val_def
        split: option.splits if_splits)








section \<open>Music player (music.py): data\<close>

text \<open>
  Strings of the player are byte strings (UTF-8).  Attributes that start with an
  underscore in the source lose it here: \<open>history\<close> is \<^verbatim>\<open>_history\<close>,
  \<open>stopped\<close> is \<^verbatim>\<open>_stopped\<close>.
\<close>

record member =
  member_id :: nat
  is_bot :: bool
  mention :: string

record track =
  seq :: "int option"
  title :: string
  stream_url :: string
  webpage_url :: string
  duration :: "int option"
  thumbnail :: "string option"
  requested_by :: "member option"

text \<open>
  The voice client belongs to the chat library.  The player reads its three status
  predicates and the member list of its channel, and commands it to stop or disconnect.
\<close>

record voice_channel =
  members :: "member list"
  bitrate :: int

record voice_client =
  is_connected :: bool
  is_playing :: bool
  is_paused :: bool
  channel :: "voice_channel option"

record guild =
  guild_id :: nat
  guild_name :: string
  guild_icon_url :: "string option"

text \<open>
  \<^verbatim>\<open>GuildPlayer\<close>.  Timestamps of the UTC clock are integers in microseconds (the
  resolution of \<^verbatim>\<open>datetime\<close>); readings of the monotonic clock are rationals in
  seconds.  A task attribute is \<open>True\<close> while the task is pending.
\<close>

record guild_player =
  guild :: guild
  queue :: "track list"
  queue_event :: bool
  current :: "track option"
  next_event :: bool
  loop_task :: bool
  voice :: "voice_client option"
  stopped :: bool
  panel_channel_id :: "nat option"
  panel_message_id :: "nat option"
  start_time_utc :: "int option"
  history :: "track list"
  history_index :: int
  repeat_mode :: string
  navigating_history :: bool
  seq_counter :: int
  ui_task :: bool
  temp_cookie_path :: "string option"
  last_panel_bump_monotonic :: rat
  idle_started_mono :: "rat option"
  last_activity_mono :: rat
  idle_task :: bool

text \<open>\<^verbatim>\<open>GuildPlayer.__init__\<close>, at monotonic time \<open>t0\<close>.\<close>

definition guild_player_init :: "guild \<Rightarrow> rat \<Rightarrow> guild_player" where
  "guild_player_init g t0 =
     \<lparr>guild = g, queue = [], queue_event = False, current = None, next_event = False,
      loop_task = False, voice = None, stopped = False,
      panel_channel_id = None, panel_message_id = None,
      start_time_utc = None, history = [], history_index = - 1, repeat_mode = ''off'',
      navigating_history = False, seq_counter = 0, ui_task = False,
      temp_cookie_path = None, last_panel_bump_monotonic = 0,
      idle_started_mono = None, last_activity_mono = t0, idle_task = False\<rparr>"

section \<open>Time formatting and the progress bar\<close>

text \<open>\<^verbatim>\<open>f"{i:02d}"\<close>: zero padding to width two; a sign counts for the width.\<close>

definition fmt_02d :: "int \<Rightarrow> string" where
  "fmt_02d i = (let s = str_int i in replicate (2 - length s) CHR ''0'' @ s)"

definition fmt_time :: "int option \<Rightarrow> string" where
  "fmt_time seconds =
     (case seconds of
        None \<Rightarrow> ''live''
      | Some sec \<Rightarrow>
          if sec < 0 then ''live''
          else
            (let m0 = sec div 60; s = sec mod 60; h = m0 div 60; m = m0 mod 60
             in if h \<noteq> 0 then str_int h @ '':'' @ fmt_02d m @ '':'' @ fmt_02d s
                else str_int m @ '':'' @ fmt_02d s))"

text \<open>
  \<^verbatim>\<open>int(td.total_seconds())\<close> for a time difference of \<open>us\<close> microseconds:
  \<^verbatim>\<open>int\<close> truncates towards zero.
\<close>

definition total_seconds_int :: "int \<Rightarrow> int" where
  "total_seconds_int us = (if us < 0 then - ((- us) div 1000000) else us div 1000000)"

text \<open>\<^verbatim>\<open>estimated_position\<close>; \<open>now\<close> is what \<^verbatim>\<open>self._now()\<close> reads.\<close>

definition estimated_position :: "int \<Rightarrow> guild_player \<Rightarrow> int option" where
  "estimated_position now p =
     (case start_time_utc p of
        None \<Rightarrow> None
      | Some started \<Rightarrow>
          (case current p of
             None \<Rightarrow> None
           | Some c \<Rightarrow>
               (case duration c of
                  None \<Rightarrow> None
                | Some d \<Rightarrow> if d = 0 then None else Some (total_seconds_int (now - started)))))"

text \<open>
  \<^verbatim>\<open>_progress_bar\<close>.  Its local variables \<^verbatim>\<open>pos\<close>, \<^verbatim>\<open>ratio\<close> and
  \<^verbatim>\<open>filled\<close> are \<open>progress_pos\<close>, \<open>progress_ratio\<close> and \<open>progress_filled\<close>.
  The source computes the ratio in double precision; the model computes it exactly.
  The two glyphs of the bar are U+25B0 and U+25B1.
\<close>

definition bar_full :: string where
  "bar_full = [CHR 0xE2, CHR 0x96, CHR 0xB0]"

definition bar_empty :: string where
  "bar_empty = [CHR 0xE2, CHR 0x96, CHR 0xB1]"

definition progress_pos :: "int \<Rightarrow> guild_player \<Rightarrow> int" where
  "progress_pos now p = (case estimated_position now p of None \<Rightarrow> 0 | Some v \<Rightarrow> v)"

definition progress_ratio :: "int \<Rightarrow> int \<Rightarrow> rat" where
  "progress_ratio pos d = min (max (rat_of_int pos / rat_of_int d) 0) 1"

definition py_trunc :: "rat \<Rightarrow> int" where
  "py_trunc q = (if q < 0 then - \<lfloor>- q\<rfloor> else \<lfloor>q\<rfloor>)"

definition progress_filled :: "int \<Rightarrow> int \<Rightarrow> int \<Rightarrow> int" where
  "progress_filled width pos d = py_trunc (progress_ratio pos d * rat_of_int width)"

definition progress_bar :: "int \<Rightarrow> int \<Rightarrow> guild_player \<Rightarrow> string option" where
  "progress_bar width now p =
     (case current p of
        None \<Rightarrow> None
      | Some c \<Rightarrow>
          (case duration c of
             None \<Rightarrow> None
           | Some d \<Rightarrow>
               if d = 0 then None
               else
                 (let pos = progress_pos now p;
                      filled = progress_filled width pos d
                  in Some (concat (replicate (nat filled) bar_full)
                           @ concat (replicate (nat (width - filled)) bar_empty)
                           @ '' '' @ fmt_time (Some pos) @ ''/'' @ fmt_time (Some d)))))"

subsection \<open>A track of 200 seconds, started at time 0\<close>

definition track_200 :: track where
  "track_200 = \<lparr>seq = Some 1, title = ''A'', stream_url = ''https://cdn.example/a'',
     webpage_url = ''https://www.youtube.com/watch?v=a'', duration = Some 200,
     thumbnail = None, requested_by = None\<rparr>"

definition guild_0 :: guild where
  "guild_0 = \<lparr>guild_id = 1, guild_name = ''guild'', guild_icon_url = None\<rparr>"

definition player_200 :: guild_player where
  "player_200 = (guild_player_init guild_0 0) \<lparr>current := Some track_200, start_time_utc := Some 0\<rparr>"

subsection \<open>The fill ratio is clamped, the time text is not\<close>

lemma progress_ratio_cases:
  assumes "0 < d"
  shows "progress_ratio pos d =
           (if pos \<le> 0 then 0 else if d \<le> pos then 1 else rat_of_int pos / rat_of_int d)"
proof -
  have d: "0 < rat_of_int d" using assms by simp
  show ?thesis
  proof (cases "pos \<le> 0")
    case True
    then have "rat_of_int pos / rat_of_int d \<le> 0" using d by (simp add: divide_le_0_iff)
    then show ?thesis using True by (simp add: progress_ratio_def)
  next
    case False
    then have p: "0 < rat_of_int pos" by simp
    show ?thesis
    proof (cases "d \<le> pos")
      case True
      then have "1 \<le> rat_of_int pos / rat_of_int d" using d by (simp add: le_divide_eq)
      then show ?thesis using True False by (simp add: progress_ratio_def)
    next
      case ge: False
      then have "rat_of_int pos / rat_of_int d \<le> 1" using d by (simp add: divide_le_eq)
      moreover have "0 \<le> rat_of_int pos / rat_of_int d" using p d by simp
      ultimately show ?thesis using ge False by (simp add: progress_ratio_def)
    qed
  qed
qed

lemma progress_ratio_range: "0 \<le> progress_ratio pos d \<and> progress_ratio pos d \<le> 1"
  by (simp add: progress_ratio_def)

lemma progress_filled_range:
  assumes "0 \<le> width"
  shows "0 \<le> progress_filled width pos d \<and> progress_filled width pos d \<le> width"
proof -
  let ?r = "progress_ratio pos d"
  have r: "0 \<le> ?r" "?r \<le> 1" using progress_ratio_range by auto
  have w: "0 \<le> rat_of_int width" using assms by simp
  have lo: "0 \<le> ?r * rat_of_int width" using r w by simp
  have "?r * rat_of_int width \<le> 1 * rat_of_int width"
    using r(2) w by (rule mult_right_mono)
  then have hi: "?r * rat_of_int width \<le> rat_of_int width" by simp
  have "\<lfloor>?r * rat_of_int width\<rfloor> \<le> \<lfloor>rat_of_int width\<rfloor>" using hi by (rule floor_mono)
  then have "\<lfloor>?r * rat_of_int width\<rfloor> \<le> width" by simp
  moreover have "0 \<le> \<lfloor>?r * rat_of_int width\<rfloor>" using lo by simp
  ultimately show ?thesis using lo by (simp add: progress_filled_def py_trunc_def)
qed

lemma progress_filled_floor:
  assumes "0 \<le> width"
  shows "progress_filled width pos d = \<lfloor>progress_ratio pos d * rat_of_int width\<rfloor>"
proof -
  have "0 \<le> progress_ratio pos d * rat_of_int width"
    using progress_ratio_range [of pos d] assms by simp
  then show ?thesis by (simp add: progress_filled_def py_trunc_def)
qed

text \<open>
  C2, as amended.  For a current track with a known duration \<open>d > 0\<close> that was started
  at \<open>started\<close>, the position the panel works with is the whole number of seconds of
  \<open>now - started\<close>, not clamped.  Only the fill ratio of the bar is clamped: it is
  \<open>pos / d\<close> brought into \<open>[0, 1]\<close>, and the bar fills \<open>\<lfloor>18 * ratio\<rfloor>\<close> of its 18
  cells.  The time text is \<open>fmt_time pos\<close>, a slash, \<open>fmt_time d\<close>, with the unclamped
  position.  The witness is the scenario of the specification: 200 seconds, 50 elapsed,
  ratio 1/4 and the text \<open>0:50/3:20\<close>.
\<close>

theorem progress_bar_ratio_clamped_text_unclamped:
  assumes "current p = Some c" and "duration c = Some d" and "0 < d"
    and "start_time_utc p = Some started"
  shows "(let pos = total_seconds_int (now - started);
              filled = progress_filled 18 pos d
          in progress_pos now p = pos
             \<and> progress_ratio pos d =
                 (if pos \<le> 0 then 0 else if d \<le> pos then 1 else rat_of_int pos / rat_of_int d)
             \<and> filled = \<lfloor>progress_ratio pos d * 18\<rfloor> \<and> 0 \<le> filled \<and> filled \<le> 18
             \<and> progress_bar 18 now p =
                 Some (concat (replicate (nat filled) bar_full)
                       @ concat (replicate (nat (18 - filled)) bar_empty)
                       @ '' '' @ fmt_time (Some pos) @ ''/'' @ fmt_time (Some d)))"
proof -
  define pos where "pos = total_seconds_int (now - started)"
  have pp: "progress_pos now p = pos"
    using assms by (simp add: progress_pos_def estimated_position_def pos_def)
  have bar: "progress_bar 18 now p =
      Some (concat (replicate (nat (progress_filled 18 pos d)) bar_full)
            @ concat (replicate (nat (18 - progress_filled 18 pos d)) bar_empty)
            @ '' '' @ fmt_time (Some pos) @ ''/'' @ fmt_time (Some d))"
    using assms pp by (simp add: progress_bar_def Let_def)
  have fl: "progress_filled 18 pos d = \<lfloor>progress_ratio pos d * 18\<rfloor>"
    using progress_filled_floor [of 18 pos d] by simp
  show ?thesis
    unfolding Let_def pos_def [symmetric]
    using pp bar fl progress_ratio_cases [OF assms(3), of pos] progress_filled_range [of 18 pos d]
    by simp
qed

lemma fmt_time_50: "fmt_time (Some 50) = ''0:50''"
  by code_simp

lemma fmt_time_200: "fmt_time (Some 200) = ''3:20''"
  by code_simp

lemma fmt_time_250: "fmt_time (Some 250) = ''4:10''"
  by code_simp

lemma player_200_fields:
  "current player_200 = Some track_200" "duration track_200 = Some 200"
  "start_time_utc player_200 = Some 0"
  by (simp_all add: player_200_def track_200_def guild_player_init_def)

theorem progress_bar_ratio_clamped_text_unclamped_witness:
  "progress_pos 50000000 player_200 = 50
   \<and> progress_ratio 50 200 = 1 / 4
   \<and> progress_filled 18 50 200 = 4
   \<and> progress_bar 18 50000000 player_200 =
       Some (concat (replicate 4 bar_full) @ concat (replicate 14 bar_empty) @ '' 0:50/3:20'')"
proof -
  have ts: "total_seconds_int (50000000 - 0) = 50" by (simp add: total_seconds_int_def)
  have r: "progress_ratio 50 200 = 1 / 4" by (simp add: progress_ratio_def)
  have fl: "\<lfloor>(9 / 2 :: rat)\<rfloor> = 4" by (simp add: floor_eq_iff)
  from progress_bar_ratio_clamped_text_unclamped
         [OF player_200_fields(1) player_200_fields(2) _ player_200_fields(3), of 50000000]
  show ?thesis
    unfolding Let_def ts r by (simp add: fmt_time_50 fmt_time_200 fl)
qed

text \<open>
  C2 as stated fails: 250 seconds after the start of a track of 200 seconds the position
  is 250, not 200, and the panel shows \<open>4:10/3:20\<close> beside a full bar.
\<close>

theorem progress_pos_not_clamped_counterexample:
  "current player_200 = Some track_200 \<and> duration track_200 = Some 200
   \<and> start_time_utc player_200 = Some 0
   \<and> progress_pos 250000000 player_200 = 250
   \<and> progress_pos 250000000 player_200 \<noteq> min (max (total_seconds_int (250000000 - 0)) 0) 200
   \<and> progress_bar 18 250000000 player_200 =
       Some (concat (replicate 18 bar_full) @ '' 4:10/3:20'')"
proof -
  have ts: "total_seconds_int (250000000 - 0) = 250" by (simp add: total_seconds_int_def)
  have pp: "progress_pos 250000000 player_200 = 250"
    using player_200_fields ts by (simp add: progress_pos_def estimated_position_def)
  have fl: "progress_filled 18 250 200 = 18"
    by (simp add: progress_filled_def progress_ratio_def py_trunc_def)
  have "progress_bar 18 250000000 player_200 =
       Some (concat (replicate 18 bar_full) @ '' 4:10/3:20'')"
    using player_200_fields pp fl by (simp add: progress_bar_def Let_def fmt_time_250 fmt_time_200)
  then show ?thesis using player_200_fields pp ts by simp
qed

section \<open>History and controls\<close>

text \<open>
  The exceptions of the model: an index out of range, a \<^verbatim>\<open>RuntimeError\<close> with its
  message, any exception raised inside a library, with its message, and the
  \<^verbatim>\<open>AttributeError\<close> of reading \<^verbatim>\<open>discord.Embed.Empty\<close>.
\<close>

datatype py_error = IndexError | RuntimeError string | LibraryError string | AttributeError

text \<open>
  \<^verbatim>\<open>voice.stop()\<close> of the chat library ends the playback: afterwards the client is
  neither playing nor paused.  The completion callback it triggers sets
  \<^verbatim>\<open>next_event\<close> later, from the event loop.
\<close>

definition voice_stop :: "voice_client \<Rightarrow> voice_client" where
  "voice_stop v = v\<lparr>is_playing := False, is_paused := False\<rparr>"

text \<open>
  \<^verbatim>\<open>skip\<close> and \<^verbatim>\<open>stop\<close>.  Both hand a panel refresh to the event loop with
  \<^verbatim>\<open>asyncio.create_task\<close>; the task runs after the control has returned and is no
  part of it.
\<close>

definition skip :: "guild_player \<Rightarrow> guild_player" where
  "skip p = (case voice p of None \<Rightarrow> p | Some v \<Rightarrow> p\<lparr>voice := Some (voice_stop v)\<rparr>)"

definition cleanup_temp_cookie_file :: "guild_player \<Rightarrow> guild_player" where
  "cleanup_temp_cookie_file p = p\<lparr>temp_cookie_path := None\<rparr>"

definition stop :: "guild_player \<Rightarrow> guild_player" where
  "stop p =
     (let p1 = p\<lparr>stopped := True\<rparr>;
          p2 = (case voice p1 of None \<Rightarrow> p1 | Some v \<Rightarrow> p1\<lparr>voice := Some (voice_stop v)\<rparr>);
          p3 = p2\<lparr>queue := []\<rparr>
      in cleanup_temp_cookie_file p3)"

text \<open>
  \<^verbatim>\<open>next((i for i, t in enumerate(self._history) if t.seq == track.seq), None)\<close>
\<close>

fun existing_idx :: "int option \<Rightarrow> track list \<Rightarrow> nat option" where
  "existing_idx s [] = None"
| "existing_idx s (t # ts) = (if seq t = s then Some 0 else map_option Suc (existing_idx s ts))"

text \<open>\<^verbatim>\<open>_update_history_for_track\<close>; the argument may be \<^verbatim>\<open>None\<close>.\<close>

definition update_history_for_track :: "track option \<Rightarrow> guild_player \<Rightarrow> guild_player" where
  "update_history_for_track tr p =
     (case tr of
        None \<Rightarrow> p
      | Some t \<Rightarrow>
          (case existing_idx (seq t) (history p) of
             Some i \<Rightarrow> p\<lparr>history_index := int i\<rparr>
           | None \<Rightarrow>
               (let h = history p @ [t]
                in if length h > 5
                   then (let overflow = length h - 5;
                             h' = drop overflow h
                         in p\<lparr>history := h', history_index := max 0 (int (length h') - 1)\<rparr>)
                   else p\<lparr>history := h, history_index := int (length h) - 1\<rparr>)))"

text \<open>
  \<^verbatim>\<open>play_previous\<close>.  \<^verbatim>\<open>self._history[pointer]\<close> raises \<^verbatim>\<open>IndexError\<close> when
  the pointer is past the end; the pointer is not negative there.
\<close>

definition play_previous :: "guild_player \<Rightarrow> py_error + guild_player" where
  "play_previous p =
     (if history p = [] then Inr p
      else if history_index p \<le> 0
      then (case current p of
              None \<Rightarrow> Inr p
            | Some c \<Rightarrow> Inr (skip (p\<lparr>queue := c # queue p\<rparr>)))
      else
        (let pointer = history_index p - 1
         in if int (length (history p)) \<le> pointer then Inl IndexError
            else
              (let target = history p ! nat pointer;
                   q1 = (case current p of
                           None \<Rightarrow> queue p
                         | Some c \<Rightarrow>
                             if \<not> list_ex (\<lambda>t. seq t = seq c) (queue p) then c # queue p
                             else queue p)
               in Inr (skip (p\<lparr>queue := target # q1, history_index := pointer,
                               navigating_history := True\<rparr>)))))"

definition can_go_previous :: "guild_player \<Rightarrow> bool" where
  "can_go_previous p = (history p \<noteq> [])"

section \<open>The history is bounded and its cursor is valid\<close>

definition history_ok :: "guild_player \<Rightarrow> bool" where
  "history_ok p =
     (length (history p) \<le> 5
      \<and> (if history p = [] then history_index p = - 1
         else 0 \<le> history_index p \<and> history_index p < int (length (history p))))"

text \<open>A sequence of \<open>record\<close> operations, first to last.\<close>

definition record_all :: "track option list \<Rightarrow> guild_player \<Rightarrow> guild_player" where
  "record_all ts p = foldl (\<lambda>q t. update_history_for_track t q) p ts"

lemma existing_idx_less: "existing_idx s ts = Some i \<Longrightarrow> i < length ts"
  by (induction ts arbitrary: i) (auto split: if_splits)

lemma update_history_ok:
  assumes "history_ok p"
  shows "history_ok (update_history_for_track tr p)"
proof (cases tr)
  case None
  then show ?thesis using assms by (simp add: update_history_for_track_def)
next
  case (Some t)
  show ?thesis
  proof (cases "existing_idx (seq t) (history p)")
    case found: (Some i)
    then have "i < length (history p)" by (rule existing_idx_less)
    then show ?thesis
      using assms Some found by (auto simp: update_history_for_track_def history_ok_def)
  next
    case None
    then show ?thesis
      using assms Some by (auto simp: update_history_for_track_def history_ok_def Let_def)
  qed
qed

lemma record_all_ok: "history_ok p \<Longrightarrow> history_ok (record_all ts p)"
  unfolding record_all_def
  by (induction ts arbitrary: p) (simp_all add: update_history_ok)

lemma init_history_ok: "history_ok (guild_player_init g t0)"
  by (simp add: history_ok_def guild_player_init_def)

lemma update_history_evicts:
  assumes "length (history p) = 5" and "existing_idx (seq t) (history p) = None"
  shows "history (update_history_for_track (Some t) p) = tl (history p) @ [t]
         \<and> history_index (update_history_for_track (Some t) p) = 4"
proof -
  obtain x xs where h: "history p = x # xs" using assms(1) by (cases "history p") auto
  then show ?thesis
    using assms by (simp add: update_history_for_track_def Let_def)
qed

text \<open>
  C3.  After any sequence of \<open>record\<close> operations on a new player the history holds at
  most 5 tracks, and the cursor is \<open>-1\<close> on an empty history and an index of the
  history otherwise.  Recording a track that is not in a full history drops the oldest
  entry and leaves the cursor on the last index.
\<close>

theorem history_bounded_cursor_valid:
  "(let p = record_all ts (guild_player_init g t0)
    in length (history p) \<le> 5
       \<and> (history p = [] \<and> history_index p = - 1
          \<or> 0 \<le> history_index p \<and> history_index p < int (length (history p)))
       \<and> (\<forall>t. length (history p) = 5 \<and> existing_idx (seq t) (history p) = None \<longrightarrow>
              history (update_history_for_track (Some t) p) = tl (history p) @ [t]
              \<and> history_index (update_history_for_track (Some t) p) = 4))"
proof -
  have "history_ok (record_all ts (guild_player_init g t0))"
    using init_history_ok by (rule record_all_ok)
  then show ?thesis
    using update_history_evicts [of "record_all ts (guild_player_init g t0)"]
    by (auto simp: history_ok_def Let_def split: if_splits)
qed

definition track_n :: "int \<Rightarrow> track" where
  "track_n n = \<lparr>seq = Some n, title = ''T'', stream_url = ''https://cdn.example/t'',
     webpage_url = ''https://www.youtube.com/watch?v=t'', duration = Some 200,
     thumbnail = None, requested_by = None\<rparr>"


lemma five_recorded:
  "history (record_all (map (Some \<circ> track_n) [1, 2, 3, 4, 5]) (guild_player_init guild_0 0))
     = map track_n [1, 2, 3, 4, 5]"
  by (simp add: record_all_def update_history_for_track_def guild_player_init_def track_n_def Let_def)


theorem history_bounded_cursor_valid_witness:
  "length (history (record_all (map (Some \<circ> track_n) [1, 2, 3, 4, 5]) (guild_player_init guild_0 0))) = 5
   \<and> existing_idx (seq (track_n 6))
        (history (record_all (map (Some \<circ> track_n) [1, 2, 3, 4, 5]) (guild_player_init guild_0 0))) = None
   \<and> history (update_history_for_track (Some (track_n 6))
        (record_all (map (Some \<circ> track_n) [1, 2, 3, 4, 5]) (guild_player_init guild_0 0)))
       = map track_n [2, 3, 4, 5, 6]
   \<and> history_index (update_history_for_track (Some (track_n 6))
        (record_all (map (Some \<circ> track_n) [1, 2, 3, 4, 5]) (guild_player_init guild_0 0))) = 4"
proof -
  let ?p = "record_all (map (Some \<circ> track_n) [1, 2, 3, 4, 5]) (guild_player_init guild_0 0)"
  have len: "length (history ?p) = 5" unfolding five_recorded by simp
  have fresh: "existing_idx (seq (track_n 6)) (history ?p) = None"
    unfolding five_recorded by (simp add: track_n_def)
  from history_bounded_cursor_valid [of "map (Some \<circ> track_n) [1, 2, 3, 4, 5]" guild_0 0]
  have "length (history ?p) = 5 \<and> existing_idx (seq (track_n 6)) (history ?p) = None \<longrightarrow>
          history (update_history_for_track (Some (track_n 6)) ?p) = tl (history ?p) @ [track_n 6]
          \<and> history_index (update_history_for_track (Some (track_n 6)) ?p) = 4"
    unfolding Let_def by blast
  with len fresh show ?thesis unfolding five_recorded by simp
qed

section \<open>Stop\<close>

text \<open>
  C9.  \<open>stop\<close> leaves the queue empty and the stop flag set, with or without a voice
  client, and does not touch the history, its cursor, the repeat mode or the sequence
  counter.
\<close>

theorem stop_clears_queue_keeps_history:
  "queue (stop p) = [] \<and> stopped (stop p)
   \<and> voice (stop p) = map_option voice_stop (voice p)
   \<and> history (stop p) = history p \<and> history_index (stop p) = history_index p
   \<and> repeat_mode (stop p) = repeat_mode p \<and> seq_counter (stop p) = seq_counter p"
  by (cases "voice p") (simp_all add: stop_def cleanup_temp_cookie_file_def Let_def)

section \<open>Previous-track navigation\<close>

lemma skip_fields:
  "queue (skip p) = queue p" "history (skip p) = history p"
  "history_index (skip p) = history_index p" "current (skip p) = current p"
  "voice (skip p) = map_option voice_stop (voice p)"
  by (cases "voice p"; simp add: skip_def)+






section \<open>Configuration and collaborators\<close>

text \<open>
  The module constants read from the environment.  \<open>spotify_credentials\<close> says that
  \<^verbatim>\<open>SPOTIFY_CLIENT_ID\<close> and \<^verbatim>\<open>SPOTIFY_CLIENT_SECRET\<close> are both set
  (\<^verbatim>\<open>make_spotify\<close> returns a client), and \<open>logo_embed_url\<close> is what
  \<^verbatim>\<open>branding.logo_embed_url()\<close> returns.
\<close>

record config =
  PLAYLIST_MAX :: int
  SPOTIFY_MAX :: int
  DELETE_PANEL_ON_IDLE :: bool
  PANEL_BUMP_SECONDS :: int
  MUSIC_LAST_PLAYED_SECONDS :: int
  YTDLP_COOKIES_FROM_BROWSER :: string
  YTDLP_COOKIES_FILE :: string
  YTDLP_COOKIES_B64 :: string
  spotify_credentials :: bool
  logo_embed_url :: "string option"

definition default_config :: config where
  "default_config =
     \<lparr>PLAYLIST_MAX = 50, SPOTIFY_MAX = 100, DELETE_PANEL_ON_IDLE = False,
      PANEL_BUMP_SECONDS = 45, MUSIC_LAST_PLAYED_SECONDS = 20,
      YTDLP_COOKIES_FROM_BROWSER = [], YTDLP_COOKIES_FILE = [], YTDLP_COOKIES_B64 = [],
      spotify_credentials = False, logo_embed_url = None\<rparr>"

text \<open>An entry of a Spotify album or playlist, as far as the resolver reads it.\<close>

record sp_track =
  sp_artists :: "string list"
  sp_name :: string
  sp_is_local :: bool

text \<open>
  The services outside the repository, as the answers they give during one operation of
  the player:
  \<^item> \<open>ytdl_lookup\<close>: what yt-dlp extraction and the choice of a stream give for a URL or
    a \<^verbatim>\<open>ytsearch1:\<close> query, after the retries;
  \<^item> \<open>yt_playlist_entries\<close>: the page URLs of the entries of a YouTube playlist, as
    \<^verbatim>\<open>_normalize_url\<close> gives them (\<open>None\<close> for an entry without one);
  \<^item> \<open>sp_track_lookup\<close>, \<open>sp_album_catalog\<close>, \<open>sp_playlist_catalog\<close>: the Spotify
    catalogue; a playlist item holds a track or none;
  \<^item> \<open>temp_cookie_file\<close>: the path \<^verbatim>\<open>write_temp_cookie_file_from_b64\<close> returns,
    \<open>None\<close> when it raises;
  \<^item> \<open>channel_resolves\<close>, \<open>fetch_ok\<close>, \<open>edit_ok\<close>, \<open>send_result\<close>,
    \<open>last_message_id\<close>: the chat service on the panel channel: whether the channel is
    found, whether the panel message is fetched, whether its edit succeeds, the id of a
    message sent (\<open>None\<close> when sending fails), and the id of the last message of the
    channel;
  \<^item> \<open>render_clock\<close>: the reading of the UTC clock when the panel is rendered;
  \<^item> \<open>play_ok\<close>: whether starting the audio (\<^verbatim>\<open>_ffmpeg_source\<close> and
    \<^verbatim>\<open>voice.play\<close>) succeeds.
\<close>

record world =
  ytdl_lookup :: "string \<Rightarrow> py_error + track"
  yt_playlist_entries :: "string \<Rightarrow> py_error + string option list"
  sp_track_lookup :: "string \<Rightarrow> sp_track"
  sp_album_catalog :: "string \<Rightarrow> sp_track list"
  sp_playlist_catalog :: "string \<Rightarrow> sp_track option list"
  temp_cookie_file :: "string option"
  channel_resolves :: bool
  fetch_ok :: bool
  edit_ok :: bool
  send_result :: "nat option"
  last_message_id :: "nat option"
  play_ok :: bool
  render_clock :: int

section \<open>Listeners\<close>

definition has_humans :: "guild_player \<Rightarrow> bool" where
  "has_humans p =
     (case voice p of
        None \<Rightarrow> False
      | Some v \<Rightarrow>
          (case channel v of
             None \<Rightarrow> False
           | Some ch \<Rightarrow> list_ex (\<lambda>m. \<not> is_bot m) (members ch)))"

text \<open>\<^verbatim>\<open>self.voice and self.voice.is_connected()\<close>\<close>

definition voice_connected :: "guild_player \<Rightarrow> bool" where
  "voice_connected p = (case voice p of None \<Rightarrow> False | Some v \<Rightarrow> is_connected v)"

definition voice_busy :: "guild_player \<Rightarrow> bool" where
  "voice_busy p = (case voice p of None \<Rightarrow> False | Some v \<Rightarrow> is_playing v \<or> is_paused v)"

section \<open>The panel embed\<close>

text \<open>The UTF-8 bytes of a code point, for the symbols in the texts of the panel.\<close>

definition utf8 :: "nat \<Rightarrow> string" where
  "utf8 n =
     (if n < 0x80 then [char_of n]
      else if n < 0x800 then [char_of (0xC0 + n div 64), char_of (0x80 + n mod 64)]
      else if n < 0x10000
      then [char_of (0xE0 + n div 4096), char_of (0x80 + n div 64 mod 64),
            char_of (0x80 + n mod 64)]
      else [char_of (0xF0 + n div 262144), char_of (0x80 + n div 4096 mod 64),
            char_of (0x80 + n div 64 mod 64), char_of (0x80 + n mod 64)])"

record embed_field =
  field_name :: string
  field_value :: string
  field_inline :: bool

record embed =
  embed_title :: string
  embed_description :: string
  embed_color :: nat
  embed_timestamp :: int
  embed_fields :: "embed_field list"
  embed_thumbnail :: "string option"
  embed_footer_text :: string
  embed_footer_icon :: string

definition upper_char :: "char \<Rightarrow> char" where
  "upper_char c =
     (if 97 \<le> (of_char c :: nat) \<and> (of_char c :: nat) \<le> 122 then char_of (of_char c - (32 :: nat))
      else c)"

text \<open>The two dictionaries of \<^verbatim>\<open>_panel_embed\<close>, with their defaults.\<close>

definition palette :: "string \<Rightarrow> nat" where
  "palette m =
     (if m = ''off'' then 0x5865F2 else if m = ''one'' then 0xFEE75C
      else if m = ''all'' then 0x57F287 else 0x5865F2)"

definition mode_badge :: "string \<Rightarrow> string" where
  "mode_badge m =
     (if m = ''off'' then utf8 0x1F6AB @ '' Off''
      else if m = ''one'' then utf8 0x1F502 @ '' Single''
      else if m = ''all'' then utf8 0x1F501 @ '' Queue''
      else m)"

definition status_line :: "guild_player \<Rightarrow> string" where
  "status_line p =
     (let is_conn = voice_connected p;
          playing = (case voice p of None \<Rightarrow> False | Some v \<Rightarrow> is_playing v);
          paused = (case voice p of None \<Rightarrow> False | Some v \<Rightarrow> is_paused v);
          has_track = (current p \<noteq> None)
      in if playing then utf8 0x25B6 @ utf8 0xFE0F @ '' Streaming''
         else if paused \<and> has_track then utf8 0x23F8 @ utf8 0xFE0F @ '' Waiting to resume''
         else if has_track then utf8 0x1F4FB @ '' Standby''
         else if is_conn then utf8 0x1F4A4 @ '' Awaiting tracks''
         else utf8 0x1F4BF @ '' Use **/play** or **.play** to begin'')"

text \<open>The lines of the field \<open>Deck Feed\<close>; \<open>prog\<close> is the progress bar.\<close>

definition playback_lines :: "string option \<Rightarrow> guild_player \<Rightarrow> string list" where
  "playback_lines prog p =
     (case current p of
        Some c \<Rightarrow>
          [''**['' @ title c @ '']('' @ webpage_url c @ '')**'']
          @ (case prog of
               None \<Rightarrow> []
             | Some bar \<Rightarrow> if bar = [] then [] else [''`'' @ bar @ ''`''])
          @ (case requested_by c of
               None \<Rightarrow> []
             | Some m \<Rightarrow> [''Requested '' @ utf8 0x2022 @ '' '' @ mention m])
      | None \<Rightarrow> [''Queue a song with `/play` or `.play <search>`.''])"

text \<open>The lines of the field \<open>Up Next\<close>, numbered from 1.\<close>

fun upcoming_lines :: "nat \<Rightarrow> track list \<Rightarrow> string list" where
  "upcoming_lines idx [] = []"
| "upcoming_lines idx (t # ts) =
     (''`'' @ fmt_02d (int idx + 1) @ ''` ['' @ title t @ '']('' @ webpage_url t @ '')'')
     # upcoming_lines (Suc idx) ts"

text \<open>
  The icon of the footer, \<^verbatim>\<open>guild_icon or discord.Embed.Empty\<close>.  The module needs
  version 2 of the chat library (it imports \<^verbatim>\<open>app_commands\<close>), in which
  \<^verbatim>\<open>Embed\<close> has no attribute \<^verbatim>\<open>Empty\<close>: for a guild without an icon, or with an
  empty URL, the right operand is evaluated and raises \<^verbatim>\<open>AttributeError\<close>.
\<close>

definition footer_icon :: "guild \<Rightarrow> py_error + string" where
  "footer_icon g =
     (case guild_icon_url g of
        None \<Rightarrow> Inl AttributeError
      | Some u \<Rightarrow> if u = [] then Inl AttributeError else Inr u)"

text \<open>
  \<^verbatim>\<open>_panel_embed\<close>.  \<open>now\<close> is the reading of the UTC clock; the call reads the clock
  for the timestamp and again for the progress bar, and both readings are taken to be the
  same instant.  The result is the embed, or the error the footer raises, together with
  the player as the call leaves it.
\<close>

definition panel_embed ::
  "config \<Rightarrow> int \<Rightarrow> guild_player \<Rightarrow> (py_error + embed) \<times> guild_player" where
  "panel_embed cfg now p =
     (let queue_len = length (queue p);
          upcoming = take 5 (queue p);
          lines = upcoming_lines 0 upcoming
                  @ (if queue_len > length upcoming
                     then [utf8 0x2026 @ ''and '' @ str_int (int (queue_len - length upcoming))
                           @ '' more in queue'']
                     else [])
      in case footer_icon (guild p) of
           Inl e \<Rightarrow> (Inl e, p)
         | Inr icon \<Rightarrow>
             (Inr \<lparr>embed_title = ''DiscBot Music Console'',
                   embed_description = status_line p,
                   embed_color = palette (repeat_mode p),
                   embed_timestamp = now,
                   embed_fields =
                     [\<lparr>field_name = ''Deck Feed'',
                       field_value = join [CHR 0x0A] (playback_lines (progress_bar 18 now p) p),
                       field_inline = False\<rparr>,
                      \<lparr>field_name = ''Queue Depth'',
                       field_value = str_int (int queue_len) @ '' waiting'',
                       field_inline = True\<rparr>,
                      \<lparr>field_name = ''Repeat Mode'',
                       field_value = mode_badge (repeat_mode p), field_inline = True\<rparr>]
                     @ (if upcoming \<noteq> []
                        then [\<lparr>field_name = ''Up Next'', field_value = join [CHR 0x0A] lines,
                               field_inline = False\<rparr>]
                        else []),
                   embed_thumbnail =
                     (case logo_embed_url cfg of
                        None \<Rightarrow> None | Some u \<Rightarrow> if u = [] then None else Some u),
                   embed_footer_text =
                     ''Panel '' @ utf8 0x2022 @ '' '' @ guild_name (guild p) @ '' ''
                     @ utf8 0x2022 @ '' Repeat '' @ map upper_char (repeat_mode p),
                   embed_footer_icon = icon\<rparr>,
              p))"

text \<open>
  Whether rendering the panel of the player raises: the clock and the configuration have
  no part in it.
\<close>

definition render_raises :: "guild_player \<Rightarrow> bool" where
  "render_raises p = (footer_icon (guild p) = Inl AttributeError)"


lemma footer_icon_error: "footer_icon g = Inl e \<Longrightarrow> e = AttributeError"
  by (auto simp: footer_icon_def split: option.splits if_splits)

lemma panel_embed_raises:
  "render_raises p \<Longrightarrow> panel_embed cfg now p = (Inl AttributeError, p)"
  by (simp add: panel_embed_def render_raises_def Let_def)

lemma panel_embed_returns:
  "\<not> render_raises p \<Longrightarrow> \<exists>emb. panel_embed cfg now p = (Inr emb, p)"
  using footer_icon_error [of "guild p"]
  by (cases "footer_icon (guild p)") (auto simp: panel_embed_def render_raises_def Let_def)

section \<open>The panel message\<close>

text \<open>
  \<^verbatim>\<open>_resolve_panel_channel\<close>, \<^verbatim>\<open>delete_panel\<close>, \<^verbatim>\<open>post_or_update_panel\<close> and
  \<^verbatim>\<open>_bump_panel_if_needed\<close>, as far as they change the player: the id of the panel
  message and the time of the last bump.  A procedure that may end with an exception
  gives the exception, \<open>None\<close> when it returns, and the player as it leaves it.
\<close>

definition resolve_panel_channel :: "world \<Rightarrow> guild_player \<Rightarrow> bool" where
  "resolve_panel_channel w p = (panel_channel_id p \<noteq> None \<and> channel_resolves w)"

definition delete_panel :: "world \<Rightarrow> guild_player \<Rightarrow> guild_player" where
  "delete_panel w p =
     (if panel_message_id p = None then p
      else if \<not> resolve_panel_channel w p then p
      else p\<lparr>panel_message_id := None\<rparr>)"

text \<open>
  The second \<^verbatim>\<open>try\<close> of \<^verbatim>\<open>post_or_update_panel\<close>: the embed is rendered, then sent.
  A refusal of the chat service is caught there; the error of the rendering is not.
\<close>

definition send_panel :: "config \<Rightarrow> world \<Rightarrow> guild_player \<Rightarrow> py_error option \<times> guild_player" where
  "send_panel cfg w p =
     (case panel_embed cfg (render_clock w) p of
        (Inl e, p1) \<Rightarrow> (Some e, p1)
      | (Inr emb, p1) \<Rightarrow>
          (case send_result w of
             None \<Rightarrow> (None, p1)
           | Some m \<Rightarrow> (None, p1\<lparr>panel_message_id := Some m\<rparr>)))"

text \<open>
  \<^verbatim>\<open>post_or_update_panel\<close>.  With a panel message on record the message is fetched,
  the embed is rendered and the message edited; \<^verbatim>\<open>NotFound\<close>, \<^verbatim>\<open>Forbidden\<close> and
  \<^verbatim>\<open>HTTPException\<close> of the chat service are caught, the id is forgotten and a new
  message is sent.  The \<^verbatim>\<open>AttributeError\<close> of the rendering is none of these: it leaves
  the procedure.
\<close>

definition post_or_update_panel ::
  "config \<Rightarrow> world \<Rightarrow> guild_player \<Rightarrow> py_error option \<times> guild_player" where
  "post_or_update_panel cfg w p =
     (if \<not> resolve_panel_channel w p then (None, p)
      else if panel_message_id p \<noteq> None
      then (if \<not> fetch_ok w then send_panel cfg w (p\<lparr>panel_message_id := None\<rparr>)
            else (case panel_embed cfg (render_clock w) p of
                    (Inl e, p1) \<Rightarrow> (Some e, p1)
                  | (Inr emb, p1) \<Rightarrow>
                      if edit_ok w then (None, p1)
                      else send_panel cfg w (p1\<lparr>panel_message_id := None\<rparr>)))
      else send_panel cfg w p)"

text \<open>
  \<^verbatim>\<open>_bump_panel_if_needed\<close>.  Everything after the channel is found runs under
  \<^verbatim>\<open>except Exception\<close>: an error of the rendering is logged and the panel stays as it
  is.
\<close>

definition bump_panel_if_needed :: "config \<Rightarrow> world \<Rightarrow> rat \<Rightarrow> bool \<Rightarrow> guild_player \<Rightarrow> guild_player" where
  "bump_panel_if_needed cfg w now_mono force p =
     (if panel_message_id p = None then p
      else if PANEL_BUMP_SECONDS cfg \<le> 0 \<and> \<not> force then p
      else if \<not> resolve_panel_channel w p then p
      else
        (let should0 = (force \<or> (last_message_id w \<noteq> None
                                   \<and> last_message_id w \<noteq> panel_message_id p));
             should_bump =
               (if \<not> force \<and> now_mono - last_panel_bump_monotonic p
                                 < rat_of_int (max (PANEL_BUMP_SECONDS cfg) 1)
                then False else should0)
         in if should_bump
            then (case panel_embed cfg (render_clock w) p of
                    (Inl e, p1) \<Rightarrow> p1
                  | (Inr emb, p1) \<Rightarrow>
                      (case send_result w of
                         None \<Rightarrow> p1
                       | Some m \<Rightarrow> p1\<lparr>panel_message_id := Some m,
                                       last_panel_bump_monotonic := now_mono\<rparr>))
            else p))"

section \<open>Disconnecting and the idle timer\<close>

text \<open>
  \<^verbatim>\<open>_safe_disconnect\<close>.  A failure of \<^verbatim>\<open>voice.disconnect\<close> is caught and logged;
  the handle is dropped in any case.  An error of the panel update at the end leaves the
  procedure, after the player has been cleared.
\<close>

definition safe_disconnect ::
  "config \<Rightarrow> world \<Rightarrow> rat \<Rightarrow> guild_player \<Rightarrow> py_error option \<times> guild_player" where
  "safe_disconnect cfg w now_mono p =
     (let p1 = p\<lparr>voice := None, current := None, queue := [],
                  idle_started_mono := None, last_activity_mono := now_mono\<rparr>
      in if DELETE_PANEL_ON_IDLE cfg then (None, delete_panel w p1)
         else post_or_update_panel cfg w p1)"

definition queue_empty :: "guild_player \<Rightarrow> bool" where
  "queue_empty p = (length (queue p) = 0)"

definition cancel_idle_timer :: "guild_player \<Rightarrow> guild_player" where
  "cancel_idle_timer p = p\<lparr>idle_task := False, idle_started_mono := None\<rparr>"

text \<open>
  \<^verbatim>\<open>_start_idle_timer_if_needed\<close>.  The last branch creates the task that waits 300
  seconds; the task itself runs later.
\<close>

definition start_idle_timer_if_needed ::
  "config \<Rightarrow> world \<Rightarrow> rat \<Rightarrow> guild_player \<Rightarrow> py_error option \<times> guild_player" where
  "start_idle_timer_if_needed cfg w now_mono p =
     (if \<not> voice_connected p then (None, p)
      else if \<not> has_humans p then safe_disconnect cfg w now_mono (cancel_idle_timer p)
      else if voice_busy p then (None, cancel_idle_timer p)
      else if \<not> queue_empty p then (None, cancel_idle_timer p)
      else if idle_task p then (None, p)
      else (None, p\<lparr>idle_task := True\<rparr>))"

definition on_track_start :: "rat \<Rightarrow> guild_player \<Rightarrow> guild_player" where
  "on_track_start now_mono p = (cancel_idle_timer p)\<lparr>last_activity_mono := now_mono\<rparr>"

definition on_track_end ::
  "config \<Rightarrow> world \<Rightarrow> rat \<Rightarrow> guild_player \<Rightarrow> py_error option \<times> guild_player" where
  "on_track_end cfg w now_mono p = start_idle_timer_if_needed cfg w now_mono p"

definition on_queue_updated ::
  "config \<Rightarrow> world \<Rightarrow> rat \<Rightarrow> guild_player \<Rightarrow> py_error option \<times> guild_player" where
  "on_queue_updated cfg w now_mono p =
     (if \<not> queue_empty p then (None, cancel_idle_timer p)
      else start_idle_timer_if_needed cfg w now_mono p)"

definition ensure_loop :: "guild_player \<Rightarrow> guild_player" where
  "ensure_loop p = (if \<not> loop_task p then p\<lparr>loop_task := True\<rparr> else p)"

section \<open>Track resolution\<close>

text \<open>
  \<^verbatim>\<open>yt_extract\<close> returns a track without sequence number and requester, and raises
  when no stream was found; \<^verbatim>\<open>yt_search_first\<close> extracts the first search hit.
\<close>

definition yt_extract :: "world \<Rightarrow> string \<Rightarrow> py_error + track" where
  "yt_extract w url =
     (case ytdl_lookup w url of
        Inl e \<Rightarrow> Inl e
      | Inr t \<Rightarrow>
          if stream_url t = [] then Inl (RuntimeError ''No streamable audio found'')
          else Inr (t\<lparr>seq := None, requested_by := None\<rparr>))"

definition yt_search_first :: "world \<Rightarrow> string \<Rightarrow> py_error + track" where
  "yt_search_first w query = yt_extract w (''ytsearch1:'' @ query)"

text \<open>Substring tests and ASCII lower case, for \<^verbatim>\<open>_is_yt_playlist\<close>.\<close>

fun strip_prefix :: "string \<Rightarrow> string \<Rightarrow> string option" where
  "strip_prefix [] s = Some s"
| "strip_prefix (a # as) [] = None"
| "strip_prefix (a # as) (c # cs) = (if a = c then strip_prefix as cs else None)"

fun py_in :: "string \<Rightarrow> string \<Rightarrow> bool" where
  "py_in needle [] = (needle = [])"
| "py_in needle (c # cs) = (strip_prefix needle (c # cs) \<noteq> None \<or> py_in needle cs)"

definition lower_char :: "char \<Rightarrow> char" where
  "lower_char c =
     (if 65 \<le> (of_char c :: nat) \<and> (of_char c :: nat) \<le> 90 then char_of (of_char c + (32 :: nat))
      else c)"

definition is_yt_playlist :: "string \<Rightarrow> bool" where
  "is_yt_playlist url =
     (let u = map lower_char url
      in py_in ''youtube.com/playlist'' u
         \<or> (py_in ''list='' u \<and> (py_in ''youtube.com'' u \<or> py_in ''youtu.be/'' u)))"

text \<open>
  The loop of \<^verbatim>\<open>yt_extract_playlist\<close>: at most \<^verbatim>\<open>PLAYLIST_MAX\<close> entries are looked
  at, and an entry that has no URL or fails to extract is skipped.
\<close>

fun yt_playlist_loop :: "world \<Rightarrow> int \<Rightarrow> nat \<Rightarrow> string option list \<Rightarrow> track list" where
  "yt_playlist_loop w cap i [] = []"
| "yt_playlist_loop w cap i (e # es) =
     (if cap \<le> int i then []
      else (case e of
              None \<Rightarrow> yt_playlist_loop w cap (Suc i) es
            | Some page_url \<Rightarrow>
                (case yt_extract w page_url of
                   Inl err \<Rightarrow> yt_playlist_loop w cap (Suc i) es
                 | Inr t \<Rightarrow> t # yt_playlist_loop w cap (Suc i) es)))"

definition yt_extract_playlist :: "config \<Rightarrow> world \<Rightarrow> string \<Rightarrow> py_error + track list" where
  "yt_extract_playlist cfg w url =
     (case yt_playlist_entries w url of
        Inl e \<Rightarrow> Inl e
      | Inr entries \<Rightarrow>
          (let out = yt_playlist_loop w (PLAYLIST_MAX cfg) 0 entries
           in if out = [] then Inl (RuntimeError ''Playlist contained no playable tracks'')
              else Inr out))"

text \<open>
  \<^verbatim>\<open>SPOTIFY_URL_RE = re.compile(r"https?://open\.spotify\.com/(track|album|playlist)/([A-Za-z0-9]+)")\<close>
  with \<^verbatim>\<open>match\<close>: anchored at the start only.  The result is the kind and the
  identifier.
\<close>

definition is_alnum :: "char \<Rightarrow> bool" where
  "is_alnum c =
     (let n = (of_char c :: nat)
      in (48 \<le> n \<and> n \<le> 57) \<or> (65 \<le> n \<and> n \<le> 90) \<or> (97 \<le> n \<and> n \<le> 122))"

fun match_kind :: "string list \<Rightarrow> string \<Rightarrow> (string \<times> string) option" where
  "match_kind [] s = None"
| "match_kind (k # ks) s =
     (case strip_prefix (k @ ''/'') s of
        None \<Rightarrow> match_kind ks s
      | Some r \<Rightarrow> if takeWhile is_alnum r \<noteq> [] then Some (k, takeWhile is_alnum r)
                  else match_kind ks s)"

definition spotify_url_match :: "string \<Rightarrow> (string \<times> string) option" where
  "spotify_url_match query =
     (case (case strip_prefix ''https://'' query of
              Some r \<Rightarrow> Some r
            | None \<Rightarrow> strip_prefix ''http://'' query) of
        None \<Rightarrow> None
      | Some r0 \<Rightarrow>
          (case strip_prefix ''open.spotify.com/'' r0 of
             None \<Rightarrow> None
           | Some r1 \<Rightarrow> match_kind [''track'', ''album'', ''playlist''] r1))"

text \<open>
  \<^verbatim>\<open>_spotify_page_album_tracks\<close> and \<^verbatim>\<open>_spotify_page_playlist_items\<close> have the same
  body: they yield the catalogue page by page, \<open>limit\<close> items a page, and stop after the
  page with which \<^verbatim>\<open>SPOTIFY_MAX\<close> items or more have been fetched, after a short page
  or at an empty one.  A page is the slice of the catalogue at the offset.  The result is
  the list of the items yielded.
\<close>

function spotify_pages :: "int \<Rightarrow> nat \<Rightarrow> 'a list \<Rightarrow> nat \<Rightarrow> nat \<Rightarrow> 'a list" where
  "spotify_pages cap limit catalog offset fetched =
     (let items = take limit (drop offset catalog)
      in if items = [] then []
         else if cap \<le> int (fetched + length items) then items
         else if length items < limit then items
         else items @ spotify_pages cap limit catalog (offset + length items)
                        (fetched + length items))"
  by pat_completeness auto
termination
proof (relation "measure (\<lambda>(cap, limit, catalog, offset, fetched). length catalog - offset)")
  show "wf (measure (\<lambda>(cap, limit, catalog, offset, fetched). length catalog - offset))"
    by simp
next
  fix cap :: int and limit :: nat and catalog :: "'a list" and offset fetched :: nat
    and items :: "'a list"
  assume items: "items = take limit (drop offset catalog)" and ne: "items \<noteq> []"
  have lt: "offset < length catalog" using items ne by (cases "offset < length catalog") auto
  have pos: "0 < length items" using ne by simp
  have "length catalog - (offset + length items) < length catalog - offset"
    using lt pos by linarith
  then
  show "((cap, limit, catalog, offset + length items, fetched + length items),
          (cap, limit, catalog, offset, fetched))
        \<in> measure (\<lambda>(cap, limit, catalog, offset, fetched). length catalog - offset)"
    by simp
qed

declare spotify_pages.simps [simp del]

definition spotify_page_album_tracks :: "config \<Rightarrow> world \<Rightarrow> string \<Rightarrow> sp_track list" where
  "spotify_page_album_tracks cfg w album_id =
     spotify_pages (SPOTIFY_MAX cfg) 50 (sp_album_catalog w album_id) 0 0"

definition spotify_page_playlist_items :: "config \<Rightarrow> world \<Rightarrow> string \<Rightarrow> sp_track option list" where
  "spotify_page_playlist_items cfg w playlist_id =
     spotify_pages (SPOTIFY_MAX cfg) 100 (sp_playlist_catalog w playlist_id) 0 0"

text \<open>
  The two loops of \<^verbatim>\<open>create_tracks_from_query\<close> over the items yielded.  A search
  that raises ends the loop with that error: there is no handler around it.
  \<^verbatim>\<open>t['artists'][0]\<close> raises on an album entry without artists.
\<close>

fun album_loop :: "world \<Rightarrow> int \<Rightarrow> sp_track list \<Rightarrow> int \<Rightarrow> track list \<Rightarrow> py_error + track list" where
  "album_loop w cap [] count results = Inr results"
| "album_loop w cap (t # ts) count results =
     (case sp_artists t of
        [] \<Rightarrow> Inl IndexError
      | a # others \<Rightarrow>
          (case yt_search_first w (a @ '' '' @ sp_name t @ '' audio'') of
             Inl e \<Rightarrow> Inl e
           | Inr r \<Rightarrow>
               if cap \<le> count + 1 then Inr (results @ [r])
               else album_loop w cap ts (count + 1) (results @ [r])))"

fun playlist_loop ::
  "world \<Rightarrow> int \<Rightarrow> sp_track option list \<Rightarrow> int \<Rightarrow> track list \<Rightarrow> py_error + track list" where
  "playlist_loop w cap [] count results = Inr results"
| "playlist_loop w cap (it # its) count results =
     (case it of
        None \<Rightarrow> playlist_loop w cap its count results
      | Some t \<Rightarrow>
          if sp_is_local t then playlist_loop w cap its count results
          else
            (let artist_name = (case sp_artists t of [] \<Rightarrow> [] | a # others \<Rightarrow> a)
             in case yt_search_first w (artist_name @ '' '' @ sp_name t @ '' audio'') of
                  Inl e \<Rightarrow> Inl e
                | Inr r \<Rightarrow>
                    if cap \<le> count + 1 then Inr (results @ [r])
                    else playlist_loop w cap its (count + 1) (results @ [r])))"

definition create_tracks_from_query :: "config \<Rightarrow> world \<Rightarrow> string \<Rightarrow> py_error + track list" where
  "create_tracks_from_query cfg w query =
     (case spotify_url_match query of
        Some (kind, ident) \<Rightarrow>
          if \<not> spotify_credentials cfg then Inl (RuntimeError ''Spotify credentials missing'')
          else if kind = ''track''
          then (let t = sp_track_lookup w ident
                in case sp_artists t of
                     [] \<Rightarrow> Inl IndexError
                   | a # others \<Rightarrow>
                       (case yt_search_first w (a @ '' '' @ sp_name t @ '' audio'') of
                          Inl e \<Rightarrow> Inl e
                        | Inr r \<Rightarrow> Inr [r]))
          else if kind = ''album''
          then album_loop w (SPOTIFY_MAX cfg) (spotify_page_album_tracks cfg w ident) 0 []
          else if kind = ''playlist''
          then playlist_loop w (SPOTIFY_MAX cfg) (spotify_page_playlist_items cfg w ident) 0 []
          else Inr []
      | None \<Rightarrow>
          if is_yt_playlist query then yt_extract_playlist cfg w query
          else if py_in ''youtube.com'' query \<or> py_in ''youtu.be'' query
          then (case yt_extract w query of Inl e \<Rightarrow> Inl e | Inr t \<Rightarrow> Inr [t])
          else (case yt_search_first w query of Inl e \<Rightarrow> Inl e | Inr t \<Rightarrow> Inr [t]))"

section \<open>Enqueue\<close>

text \<open>
  \<^verbatim>\<open>_ensure_temp_cookie_file\<close> and the effect of \<^verbatim>\<open>ytdl_opts\<close> on the player: with
  inline cookies configured and no other cookie source, the first call writes the
  temporary cookie file and keeps its path.
\<close>

definition ensure_temp_cookie_file :: "config \<Rightarrow> world \<Rightarrow> guild_player \<Rightarrow> guild_player" where
  "ensure_temp_cookie_file cfg w p =
     (if temp_cookie_path p = None \<and> YTDLP_COOKIES_B64 cfg \<noteq> []
      then (case temp_cookie_file w of
              None \<Rightarrow> p
            | Some path \<Rightarrow> p\<lparr>temp_cookie_path := Some path\<rparr>)
      else p)"

definition ytdl_opts :: "config \<Rightarrow> world \<Rightarrow> guild_player \<Rightarrow> guild_player" where
  "ytdl_opts cfg w p =
     (if YTDLP_COOKIES_B64 cfg \<noteq> [] \<and> YTDLP_COOKIES_FROM_BROWSER cfg = []
         \<and> YTDLP_COOKIES_FILE cfg = []
      then ensure_temp_cookie_file cfg w p
      else p)"

text \<open>
  The loop of \<^verbatim>\<open>enqueue\<close> over the resolved tracks: the tracks admitted, in order,
  and the player with them queued.
\<close>

fun admit :: "member option \<Rightarrow> track list \<Rightarrow> guild_player \<Rightarrow> track list \<times> guild_player" where
  "admit requester [] p = ([], p)"
| "admit requester (t # ts) p =
     (if stream_url t = [] then admit requester ts p
      else
        (let n = seq_counter p + 1;
             wrapped = \<lparr>seq = Some n, title = title t, stream_url = stream_url t,
                        webpage_url = webpage_url t, duration = duration t,
                        thumbnail = thumbnail t, requested_by = requester\<rparr>;
             (good, p') = admit requester ts (p\<lparr>seq_counter := n, queue := queue p @ [wrapped]\<rparr>)
         in (wrapped # good, p')))"

text \<open>\<^verbatim>\<open>str(e)\<close> for an exception.\<close>

fun str_error :: "py_error \<Rightarrow> string" where
  "str_error IndexError = ''list index out of range''"
| "str_error (RuntimeError m) = m"
| "str_error (LibraryError m) = m"
| "str_error AttributeError =
     ''type object '' @ [CHR 0x27] @ ''Embed'' @ [CHR 0x27] @ '' has no attribute ''
     @ [CHR 0x27] @ ''Empty'' @ [CHR 0x27]"

text \<open>
  \<^verbatim>\<open>enqueue\<close>.  A Python exception does not undo what the call did before it: the
  result is the error or the admitted tracks, together with the player as the call
  leaves it.  Only an error of the resolution is wrapped in a \<^verbatim>\<open>RuntimeError\<close>; one
  of \<^verbatim>\<open>_on_queue_updated\<close> would leave the call as it is.
\<close>

definition enqueue ::
  "config \<Rightarrow> world \<Rightarrow> rat \<Rightarrow> string \<Rightarrow> member option \<Rightarrow> guild_player
     \<Rightarrow> (py_error + track list) \<times> guild_player" where
  "enqueue cfg w now_mono query requester p =
     (let p0 = ytdl_opts cfg w p
      in case create_tracks_from_query cfg w query of
           Inl e \<Rightarrow> (Inl (RuntimeError (str_error e)), p0)
         | Inr tracks \<Rightarrow>
             (let (good, p1) = admit requester tracks p0
              in if good \<noteq> []
                 then (case on_queue_updated cfg w now_mono
                              ((ensure_loop (p1\<lparr>queue_event := True\<rparr>))
                                 \<lparr>last_activity_mono := now_mono\<rparr>) of
                         (Some e, p2) \<Rightarrow> (Inl e, p2)
                       | (None, p2) \<Rightarrow> (Inr good, p2))
                 else (Inr good, p1)))"

section \<open>A failed enqueue\<close>

definition inline_cookies :: "config \<Rightarrow> bool" where
  "inline_cookies cfg =
     (YTDLP_COOKIES_B64 cfg \<noteq> [] \<and> YTDLP_COOKIES_FROM_BROWSER cfg = []
      \<and> YTDLP_COOKIES_FILE cfg = [])"

lemma ytdl_opts_only_cookie_path:
  "ytdl_opts cfg w p =
     p\<lparr>temp_cookie_path :=
          (if inline_cookies cfg \<and> temp_cookie_path p = None then temp_cookie_file w
           else temp_cookie_path p)\<rparr>"
  by (cases "temp_cookie_file w")
     (simp_all add: ytdl_opts_def ensure_temp_cookie_file_def inline_cookies_def)

text \<open>
  C6, as amended.  When the resolution of the query raises, \<open>enqueue\<close> raises a
  \<^verbatim>\<open>RuntimeError\<close> with the message of that error and admits nothing: queue and
  sequence counter are as before, and so is every other attribute of the player but the
  path of the temporary cookie file, which the call has created before resolving when
  inline cookies are configured and no file existed yet.  Without inline cookies the
  player is unchanged as a whole.
\<close>

theorem enqueue_error_changes_cookie_path_only:
  assumes "create_tracks_from_query cfg w query = Inl e"
  shows "enqueue cfg w now_mono query requester p =
           (Inl (RuntimeError (str_error e)),
            p\<lparr>temp_cookie_path :=
                 (if inline_cookies cfg \<and> temp_cookie_path p = None then temp_cookie_file w
                  else temp_cookie_path p)\<rparr>)
         \<and> queue (snd (enqueue cfg w now_mono query requester p)) = queue p
         \<and> seq_counter (snd (enqueue cfg w now_mono query requester p)) = seq_counter p
         \<and> (\<not> inline_cookies cfg \<longrightarrow> snd (enqueue cfg w now_mono query requester p) = p)"
  using assms by (simp add: enqueue_def Let_def ytdl_opts_only_cookie_path)

text \<open>A world in which nothing resolves and a temporary file can be written.\<close>

definition world_down :: world where
  "world_down =
     \<lparr>ytdl_lookup = (\<lambda>u. Inl (LibraryError ''unavailable'')),
      yt_playlist_entries = (\<lambda>u. Inl (LibraryError ''unavailable'')),
      sp_track_lookup = (\<lambda>i. \<lparr>sp_artists = [], sp_name = [], sp_is_local = False\<rparr>),
      sp_album_catalog = (\<lambda>i. []),
      sp_playlist_catalog = (\<lambda>i. []),
      temp_cookie_file = Some ''/tmp/yt_cookies_1.txt'',
      channel_resolves = False, fetch_ok = False, edit_ok = False, send_result = None,
      last_message_id = None, play_ok = True,
      render_clock = 0\<rparr>"

lemma search_down:
  "create_tracks_from_query cfg world_down ''never gonna'' = Inl (LibraryError ''unavailable'')"
  by (simp add: create_tracks_from_query_def spotify_url_match_def is_yt_playlist_def
        yt_search_first_def yt_extract_def world_down_def lower_char_def Let_def)

theorem enqueue_error_changes_cookie_path_only_witness:
  "enqueue default_config world_down 0 ''never gonna'' None (guild_player_init guild_0 0)
     = (Inl (RuntimeError ''unavailable''), guild_player_init guild_0 0)"
proof -
  have nc: "\<not> inline_cookies default_config"
    by (simp add: inline_cookies_def default_config_def)
  from enqueue_error_changes_cookie_path_only [OF search_down, of default_config 0 None
      "guild_player_init guild_0 0"] nc
  show ?thesis by simp
qed

text \<open>
  C6 as stated fails: with inline cookies configured, a failed enqueue leaves the path of
  a newly written cookie file in the player.
\<close>

theorem enqueue_error_keeps_cookie_file_counterexample:
  "fst (enqueue (default_config\<lparr>YTDLP_COOKIES_B64 := ''Y29va2ll''\<rparr>) world_down 0
          ''never gonna'' None (guild_player_init guild_0 0))
     = Inl (RuntimeError ''unavailable'')
   \<and> temp_cookie_path (guild_player_init guild_0 0) = None
   \<and> temp_cookie_path
        (snd (enqueue (default_config\<lparr>YTDLP_COOKIES_B64 := ''Y29va2ll''\<rparr>) world_down 0
                ''never gonna'' None (guild_player_init guild_0 0)))
       = Some ''/tmp/yt_cookies_1.txt''
   \<and> snd (enqueue (default_config\<lparr>YTDLP_COOKIES_B64 := ''Y29va2ll''\<rparr>) world_down 0
            ''never gonna'' None (guild_player_init guild_0 0))
       \<noteq> guild_player_init guild_0 0"
proof -
  let ?cfg = "default_config\<lparr>YTDLP_COOKIES_B64 := ''Y29va2ll''\<rparr>"
  let ?p = "guild_player_init guild_0 0"
  have ic: "inline_cookies ?cfg" by (simp add: inline_cookies_def default_config_def)
  have none: "temp_cookie_path ?p = None" by (simp add: guild_player_init_def)
  have tf: "temp_cookie_file world_down = Some ''/tmp/yt_cookies_1.txt''"
    by (simp add: world_down_def)
  have eq: "enqueue ?cfg world_down 0 ''never gonna'' None ?p
      = (Inl (RuntimeError ''unavailable''), ?p\<lparr>temp_cookie_path := Some ''/tmp/yt_cookies_1.txt''\<rparr>)"
    using search_down [of ?cfg] ic none tf
    by (simp add: enqueue_def Let_def ytdl_opts_only_cookie_path)
  have neq: "?p\<lparr>temp_cookie_path := Some ''/tmp/yt_cookies_1.txt''\<rparr> \<noteq> ?p"
  proof
    assume "?p\<lparr>temp_cookie_path := Some ''/tmp/yt_cookies_1.txt''\<rparr> = ?p"
    then have "temp_cookie_path (?p\<lparr>temp_cookie_path := Some ''/tmp/yt_cookies_1.txt''\<rparr>)
                = temp_cookie_path ?p" by (rule arg_cong)
    then show False using none by simp
  qed
  show ?thesis using eq none neq by simp
qed

section \<open>The cap on a Spotify album or playlist\<close>

text \<open>
  What one turn of the album loop and of the playlist loop does with an entry it does not
  skip: the search for the entry.
\<close>

definition album_search :: "world \<Rightarrow> sp_track \<Rightarrow> py_error + track" where
  "album_search w t =
     (case sp_artists t of
        [] \<Rightarrow> Inl IndexError
      | a # others \<Rightarrow> yt_search_first w (a @ '' '' @ sp_name t @ '' audio''))"

definition playlist_search :: "world \<Rightarrow> sp_track \<Rightarrow> py_error + track" where
  "playlist_search w t =
     yt_search_first w
       ((case sp_artists t of [] \<Rightarrow> [] | a # others \<Rightarrow> a) @ '' '' @ sp_name t @ '' audio'')"

definition album_entry_resolves :: "world \<Rightarrow> sp_track \<Rightarrow> bool" where
  "album_entry_resolves w t = (\<not> isl (album_search w t))"

definition playlist_item_resolves :: "world \<Rightarrow> sp_track option \<Rightarrow> bool" where
  "playlist_item_resolves w it =
     (case it of
        None \<Rightarrow> False
      | Some t \<Rightarrow> \<not> sp_is_local t \<and> \<not> isl (playlist_search w t))"

lemma spotify_pages_prefix:
  "0 < limit \<Longrightarrow>
   \<exists>n. spotify_pages cap limit catalog offset fetched = take n (drop offset catalog)
       \<and> (length (drop offset catalog) \<le> n \<or> cap \<le> int (fetched + n))"
proof (induction cap limit catalog offset fetched rule: spotify_pages.induct)
  case (1 cap limit catalog offset fetched)
  let ?rest = "drop offset catalog"
  let ?items = "take limit ?rest"
  show ?case
  proof (cases "?items = []")
    case True
    then have "?rest = []" using "1.prems" by (cases ?rest) auto
    then show ?thesis
      by (intro exI [of _ 0]) (simp add: spotify_pages.simps [of cap limit catalog offset fetched])
  next
    case ne: False
    show ?thesis
    proof (cases "cap \<le> int (fetched + length ?items)")
      case True
      have "spotify_pages cap limit catalog offset fetched = ?items"
        using ne True by (simp add: spotify_pages.simps [of cap limit catalog offset fetched] Let_def)
      moreover have "take (length ?items) ?rest = ?items" by (simp add: min_def)
      ultimately show ?thesis using True by (intro exI [of _ "length ?items"]) simp
    next
      case notcap: False
      show ?thesis
      proof (cases "length ?items < limit")
        case True
        have "spotify_pages cap limit catalog offset fetched = ?items"
          using ne notcap True
          by (simp add: spotify_pages.simps [of cap limit catalog offset fetched] Let_def)
        moreover have "?items = ?rest" using True by (simp add: min_def split: if_splits)
        ultimately show ?thesis by (intro exI [of _ "length ?rest"]) simp
      next
        case full: False
        then have len: "length ?items = limit" by simp
        have unfold: "spotify_pages cap limit catalog offset fetched =
            ?items @ spotify_pages cap limit catalog (offset + limit) (fetched + limit)"
          using ne notcap full len
          by (simp add: spotify_pages.simps [of cap limit catalog offset fetched] Let_def)
        from "1.IH" [OF refl ne notcap full "1.prems"] len
        obtain m where m: "spotify_pages cap limit catalog (offset + limit) (fetched + limit)
              = take m (drop (offset + limit) catalog)"
            "length (drop (offset + limit) catalog) \<le> m \<or> cap \<le> int (fetched + limit + m)"
          by auto
        have "take (limit + m) ?rest = ?items @ take m (drop (offset + limit) catalog)"
          by (simp add: take_add add.commute)
        then show ?thesis
          using unfold m by (intro exI [of _ "limit + m"]) (auto simp: add.assoc)
      qed
    qed
  qed
qed

lemma spotify_pages_take_cap:
  assumes "0 < limit"
  shows "take (nat cap) (spotify_pages cap limit catalog 0 0) = take (nat cap) catalog"
proof -
  from spotify_pages_prefix [OF assms, of cap catalog 0 0]
  obtain n where n: "spotify_pages cap limit catalog 0 0 = take n catalog"
      "length catalog \<le> n \<or> cap \<le> int n" by auto
  from n(2) show ?thesis
  proof
    assume "length catalog \<le> n"
    then show ?thesis using n(1) by simp
  next
    assume "cap \<le> int n"
    then have "min (nat cap) n = nat cap" by simp
    then show ?thesis using n(1) by simp
  qed
qed

lemma album_loop_resolved:
  "count < cap \<Longrightarrow> nat (cap - count) \<le> length items \<Longrightarrow>
   list_all (album_entry_resolves w) (take (nat (cap - count)) items) \<Longrightarrow>
   album_loop w cap items count results =
     Inr (results @ map (\<lambda>t. projr (album_search w t)) (take (nat (cap - count)) items))"
proof (induction items arbitrary: count results)
  case Nil
  then show ?case by simp
next
  case (Cons t ts)
  obtain k where k: "nat (cap - count) = Suc k" using Cons.prems(1) by (cases "nat (cap - count)") auto
  from Cons.prems(3) k have res: "album_entry_resolves w t"
    and rest: "list_all (album_entry_resolves w) (take k ts)" by simp_all
  from res obtain a others r where a: "sp_artists t = a # others"
    and r: "yt_search_first w (a @ '' '' @ sp_name t @ '' audio'') = Inr r"
    and pr: "projr (album_search w t) = r"
    by (cases "sp_artists t"; cases "album_search w t")
       (auto simp: album_entry_resolves_def album_search_def)
  show ?case
  proof (cases "cap \<le> count + 1")
    case True
    then have "k = 0" using k by linarith
    then show ?thesis using a r pr True k by simp
  next
    case False
    then have c1: "count + 1 < cap" by simp
    have k': "nat (cap - (count + 1)) = k" using k by linarith
    have "album_loop w cap ts (count + 1) (results @ [r]) =
        Inr ((results @ [r]) @ map (\<lambda>t. projr (album_search w t)) (take (nat (cap - (count + 1))) ts))"
      using c1 Cons.prems(2) rest k k' by (intro Cons.IH) simp_all
    then show ?thesis using a r pr False k k' by simp
  qed
qed

lemma playlist_loop_resolved:
  "count < cap \<Longrightarrow> nat (cap - count) \<le> length items \<Longrightarrow>
   list_all (playlist_item_resolves w) (take (nat (cap - count)) items) \<Longrightarrow>
   playlist_loop w cap items count results =
     Inr (results @ map (\<lambda>it. projr (playlist_search w (the it))) (take (nat (cap - count)) items))"
proof (induction items arbitrary: count results)
  case Nil
  then show ?case by simp
next
  case (Cons it its)
  obtain k where k: "nat (cap - count) = Suc k" using Cons.prems(1) by (cases "nat (cap - count)") auto
  from Cons.prems(3) k have res: "playlist_item_resolves w it"
    and rest: "list_all (playlist_item_resolves w) (take k its)" by simp_all
  from res obtain t r where t: "it = Some t" "\<not> sp_is_local t"
    and r: "playlist_search w t = Inr r"
    by (cases it; cases "playlist_search w (the it)") (auto simp: playlist_item_resolves_def)
  show ?case
  proof (cases "cap \<le> count + 1")
    case True
    then have "k = 0" using k by linarith
    then show ?thesis using t r True k by (simp add: playlist_search_def Let_def)
  next
    case False
    then have c1: "count + 1 < cap" by simp
    have k': "nat (cap - (count + 1)) = k" using k by linarith
    have "playlist_loop w cap its (count + 1) (results @ [r]) =
        Inr ((results @ [r])
             @ map (\<lambda>it. projr (playlist_search w (the it))) (take (nat (cap - (count + 1))) its))"
      using c1 Cons.prems(2) rest k k' by (intro Cons.IH) simp_all
    then show ?thesis using t r False k k' by (simp add: playlist_search_def Let_def)
  qed
qed

lemma yt_search_first_stream: "yt_search_first w q = Inr r \<Longrightarrow> stream_url r \<noteq> []"
  by (auto simp: yt_search_first_def yt_extract_def split: sum.splits if_splits)

lemma admit_all:
  "list_all (\<lambda>t. stream_url t \<noteq> []) ts \<Longrightarrow>
   length (fst (admit requester ts p)) = length ts
   \<and> queue (snd (admit requester ts p)) = queue p @ fst (admit requester ts p)
   \<and> seq_counter (snd (admit requester ts p)) = seq_counter p + int (length ts)"
proof (induction ts arbitrary: p)
  case Nil
  then show ?case by simp
next
  case (Cons t ts)
  then have st: "stream_url t \<noteq> []" and rest: "list_all (\<lambda>t. stream_url t \<noteq> []) ts" by simp_all
  let ?wrapped = "\<lparr>seq = Some (seq_counter p + 1), title = title t, stream_url = stream_url t,
      webpage_url = webpage_url t, duration = duration t, thumbnail = thumbnail t,
      requested_by = requester\<rparr>"
  let ?p = "p\<lparr>seq_counter := seq_counter p + 1, queue := queue p @ [?wrapped]\<rparr>"
  from Cons.IH [OF rest, of ?p] st show ?case
    by (simp add: Let_def case_prod_beta)
qed


lemma on_queue_updated_nonempty:
  "queue p \<noteq> [] \<Longrightarrow> on_queue_updated cfg w now_mono p = (None, cancel_idle_timer p)"
  by (simp add: on_queue_updated_def queue_empty_def)

lemma enqueue_admits_all:
  assumes "create_tracks_from_query cfg w query = Inr tracks"
    and "tracks \<noteq> []" and "list_all (\<lambda>t. stream_url t \<noteq> []) tracks"
  shows "\<exists>good p'. enqueue cfg w now_mono query requester p = (Inr good, p')
           \<and> length good = length tracks
           \<and> queue p' = queue p @ good
           \<and> seq_counter p' = seq_counter p + int (length tracks)"
proof -
  let ?p0 = "ytdl_opts cfg w p"
  let ?good = "fst (admit requester tracks ?p0)"
  let ?p1 = "snd (admit requester tracks ?p0)"
  have p0: "queue ?p0 = queue p" "seq_counter ?p0 = seq_counter p"
    by (simp_all add: ytdl_opts_def ensure_temp_cookie_file_def split: option.splits)
  from admit_all [OF assms(3), of requester ?p0] p0
  have a: "length ?good = length tracks" "queue ?p1 = queue p @ ?good"
    "seq_counter ?p1 = seq_counter p + int (length tracks)" by simp_all
  have ne: "?good \<noteq> []" using a(1) assms(2) by auto
  let ?p2 = "(ensure_loop (?p1\<lparr>queue_event := True\<rparr>))\<lparr>last_activity_mono := now_mono\<rparr>"
  have q2: "queue ?p2 = queue p @ ?good" "seq_counter ?p2 = seq_counter p + int (length tracks)"
    using a by (simp_all add: ensure_loop_def)
  then have "queue ?p2 \<noteq> []" using ne by simp
  then have upd: "on_queue_updated cfg w now_mono ?p2 = (None, cancel_idle_timer ?p2)"
    by (rule on_queue_updated_nonempty)
  have fin: "queue (cancel_idle_timer ?p2) = queue p @ ?good"
    "seq_counter (cancel_idle_timer ?p2) = seq_counter p + int (length tracks)"
    using q2 by (simp_all add: cancel_idle_timer_def)
  have "enqueue cfg w now_mono query requester p = (Inr ?good, cancel_idle_timer ?p2)"
    using assms(1) ne upd by (simp add: enqueue_def Let_def case_prod_beta)
  then show ?thesis using a(1) fin by blast
qed

text \<open>
  C5, as amended.  The query is a link to a Spotify album or playlist with more entries
  than the cap, the cap is at least 1, and the first cap entries of the catalogue resolve:
  each is a track that is not a local file (playlist) or has an artist (album), and the
  search for it gives a track.  Then \<open>enqueue\<close> admits exactly cap tracks, appended to the
  queue and numbered on from the sequence counter, and raises no error.
\<close>

theorem enqueue_catalog_capped:
  assumes "spotify_url_match query = Some (kind, ident)"
    and "spotify_credentials cfg" and "1 \<le> SPOTIFY_MAX cfg"
    and "kind = ''album'' \<and> SPOTIFY_MAX cfg < int (length (sp_album_catalog w ident))
           \<and> list_all (album_entry_resolves w)
                (take (nat (SPOTIFY_MAX cfg)) (sp_album_catalog w ident))
         \<or> kind = ''playlist'' \<and> SPOTIFY_MAX cfg < int (length (sp_playlist_catalog w ident))
           \<and> list_all (playlist_item_resolves w)
                (take (nat (SPOTIFY_MAX cfg)) (sp_playlist_catalog w ident))"
  shows "\<exists>good p'. enqueue cfg w now_mono query requester p = (Inr good, p')
           \<and> int (length good) = SPOTIFY_MAX cfg
           \<and> queue p' = queue p @ good
           \<and> seq_counter p' = seq_counter p + SPOTIFY_MAX cfg"
proof -
  let ?cap = "SPOTIFY_MAX cfg"
  from assms(4) show ?thesis
  proof (elim disjE conjE)
    assume kind: "kind = ''album''" and more: "?cap < int (length (sp_album_catalog w ident))"
      and res: "list_all (album_entry_resolves w) (take (nat ?cap) (sp_album_catalog w ident))"
    let ?pages = "spotify_page_album_tracks cfg w ident"
    have tk: "take (nat ?cap) ?pages = take (nat ?cap) (sp_album_catalog w ident)"
      unfolding spotify_page_album_tracks_def by (rule spotify_pages_take_cap) simp
    have "length (take (nat ?cap) ?pages) = nat ?cap" using more unfolding tk by simp
    then have len: "nat (?cap - 0) \<le> length ?pages" by simp
    have res': "list_all (album_entry_resolves w) (take (nat (?cap - 0)) ?pages)"
      using res tk by simp
    let ?tracks = "map (\<lambda>t. projr (album_search w t)) (take (nat ?cap) ?pages)"
    have loop: "album_loop w ?cap ?pages 0 [] = Inr ?tracks"
      using album_loop_resolved [OF _ len res', of "[]"] assms(3) by simp
    have ct: "create_tracks_from_query cfg w query = Inr ?tracks"
      using assms(1,2) kind loop by (simp add: create_tracks_from_query_def)
    have ln: "length ?tracks = nat ?cap" using more unfolding tk by simp
    then have ne: "?tracks \<noteq> []" using assms(3) by auto
    have "stream_url (projr (album_search w t)) \<noteq> []" if "album_entry_resolves w t" for t
      using that yt_search_first_stream
      by (cases "album_search w t")
         (auto simp: album_entry_resolves_def album_search_def split: list.splits)
    then have st: "list_all (\<lambda>t. stream_url t \<noteq> []) ?tracks"
      using res unfolding tk by (auto simp: list_all_iff)
    from enqueue_admits_all [OF ct ne st, of now_mono requester p] ln assms(3)
    show ?thesis by auto
  next
    assume kind: "kind = ''playlist''"
      and more: "?cap < int (length (sp_playlist_catalog w ident))"
      and res: "list_all (playlist_item_resolves w) (take (nat ?cap) (sp_playlist_catalog w ident))"
    let ?pages = "spotify_page_playlist_items cfg w ident"
    have tk: "take (nat ?cap) ?pages = take (nat ?cap) (sp_playlist_catalog w ident)"
      unfolding spotify_page_playlist_items_def by (rule spotify_pages_take_cap) simp
    have "length (take (nat ?cap) ?pages) = nat ?cap" using more unfolding tk by simp
    then have len: "nat (?cap - 0) \<le> length ?pages" by simp
    have res': "list_all (playlist_item_resolves w) (take (nat (?cap - 0)) ?pages)"
      using res tk by simp
    let ?tracks = "map (\<lambda>it. projr (playlist_search w (the it))) (take (nat ?cap) ?pages)"
    have loop: "playlist_loop w ?cap ?pages 0 [] = Inr ?tracks"
      using playlist_loop_resolved [OF _ len res', of "[]"] assms(3) by simp
    have ct: "create_tracks_from_query cfg w query = Inr ?tracks"
      using assms(1,2) kind loop by (simp add: create_tracks_from_query_def)
    have ln: "length ?tracks = nat ?cap" using more unfolding tk by simp
    then have ne: "?tracks \<noteq> []" using assms(3) by auto
    have "stream_url (projr (playlist_search w (the it))) \<noteq> []"
      if "playlist_item_resolves w it" for it
      using that yt_search_first_stream
      by (cases it; cases "playlist_search w (the it)")
         (auto simp: playlist_item_resolves_def playlist_search_def)
    then have st: "list_all (\<lambda>t. stream_url t \<noteq> []) ?tracks"
      using res unfolding tk by (auto simp: list_all_iff)
    from enqueue_admits_all [OF ct ne st, of now_mono requester p] ln assms(3)
    show ?thesis by auto
  qed
qed

subsection \<open>Catalogues of three entries under a cap of 2\<close>

definition sp_entry :: "string \<Rightarrow> bool \<Rightarrow> sp_track" where
  "sp_entry n loc = \<lparr>sp_artists = [''Band''], sp_name = n, sp_is_local = loc\<rparr>"

text \<open>
  A catalogue of three albums and playlists of three entries each, and a search that
  finds every title but \<open>Lost\<close>.
\<close>

definition world_catalog :: world where
  "world_catalog =
     \<lparr>ytdl_lookup =
        (\<lambda>u. if u = ''ytsearch1:Band Lost audio'' then Inl (LibraryError ''unavailable'')
             else Inr \<lparr>seq = None, title = u, stream_url = ''https://cdn.example/audio'',
                       webpage_url = u, duration = Some 200, thumbnail = None,
                       requested_by = None\<rparr>),
      yt_playlist_entries = (\<lambda>u. Inl (LibraryError ''unavailable'')),
      sp_track_lookup = (\<lambda>i. sp_entry ''One'' False),
      sp_album_catalog =
        (\<lambda>i. if i = ''lossy''
             then [sp_entry ''One'' False, sp_entry ''Lost'' False, sp_entry ''Three'' False]
             else [sp_entry ''One'' False, sp_entry ''Two'' False, sp_entry ''Three'' False]),
      sp_playlist_catalog =
        (\<lambda>i. [Some (sp_entry ''One'' True), Some (sp_entry ''Two'' True),
              Some (sp_entry ''Three'' False)]),
      temp_cookie_file = None,
      channel_resolves = False, fetch_ok = False, edit_ok = False, send_result = None,
      last_message_id = None, play_ok = True,
      render_clock = 0\<rparr>"

definition config_cap2 :: config where
  "config_cap2 = default_config\<lparr>SPOTIFY_MAX := 2, spotify_credentials := True\<rparr>"

lemma match_album_good:
  "spotify_url_match ''https://open.spotify.com/album/good'' = Some (''album'', ''good'')"
  by code_simp

lemma album_good_resolves:
  "list_all (album_entry_resolves world_catalog)
     (take (nat (SPOTIFY_MAX config_cap2)) (sp_album_catalog world_catalog ''good''))"
  by code_simp

lemma config_cap2_fields:
  "spotify_credentials config_cap2" "SPOTIFY_MAX config_cap2 = 2"
  by (simp_all add: config_cap2_def default_config_def)

lemma album_good_length: "length (sp_album_catalog world_catalog ''good'') = 3"
  by (simp add: world_catalog_def)

theorem enqueue_catalog_capped_witness:
  "\<exists>good p'. enqueue config_cap2 world_catalog 0 ''https://open.spotify.com/album/good'' None
                 (guild_player_init guild_0 0) = (Inr good, p')
      \<and> length good = 2 \<and> queue p' = good \<and> seq_counter p' = 2"
proof -
  have h: "''album'' = ''album''
             \<and> SPOTIFY_MAX config_cap2 < int (length (sp_album_catalog world_catalog ''good''))
             \<and> list_all (album_entry_resolves world_catalog)
                  (take (nat (SPOTIFY_MAX config_cap2)) (sp_album_catalog world_catalog ''good''))
           \<or> ''album'' = ''playlist''
             \<and> SPOTIFY_MAX config_cap2 < int (length (sp_playlist_catalog world_catalog ''good''))
             \<and> list_all (playlist_item_resolves world_catalog)
                  (take (nat (SPOTIFY_MAX config_cap2)) (sp_playlist_catalog world_catalog ''good''))"
    using album_good_resolves album_good_length config_cap2_fields(2) by simp
  have c: "1 \<le> SPOTIFY_MAX config_cap2" by (simp add: config_cap2_fields)
  from enqueue_catalog_capped [OF match_album_good config_cap2_fields(1) c h, of 0 None
      "guild_player_init guild_0 0"]
  show ?thesis by (simp add: config_cap2_fields guild_player_init_def)
qed

lemma enqueue_playlist_mixed:
  "map_sum id length
     (fst (enqueue config_cap2 world_catalog 0 ''https://open.spotify.com/playlist/mixed'' None
             (guild_player_init guild_0 0))) = Inr 1"
  by code_simp

lemma enqueue_album_lossy:
  "fst (enqueue config_cap2 world_catalog 0 ''https://open.spotify.com/album/lossy'' None
          (guild_player_init guild_0 0)) = Inl (RuntimeError ''unavailable'')"
  by code_simp

text \<open>
  C5 as stated fails.  With a cap of 2, a playlist of three items of which the first two
  are local files gives one track, not two: the loop skips a local file and the paging
  has stopped after the page that reached the cap.  And an album of three entries whose
  second entry is not found makes the whole enqueue fail.
\<close>

theorem enqueue_catalog_below_cap_counterexample:
  "SPOTIFY_MAX config_cap2 = 2
   \<and> length (sp_playlist_catalog world_catalog ''mixed'') = 3
   \<and> map_sum id length
       (fst (enqueue config_cap2 world_catalog 0 ''https://open.spotify.com/playlist/mixed'' None
               (guild_player_init guild_0 0))) = Inr 1
   \<and> length (sp_album_catalog world_catalog ''lossy'') = 3
   \<and> fst (enqueue config_cap2 world_catalog 0 ''https://open.spotify.com/album/lossy'' None
            (guild_player_init guild_0 0)) = Inl (RuntimeError ''unavailable'')"
  using enqueue_playlist_mixed enqueue_album_lossy config_cap2_fields(2)
  by (simp add: world_catalog_def)

section \<open>Rendering the panel reads the clock\<close>







subsection \<open>The track of 200 seconds in a guild with an icon\<close>












section \<open>The playback loop\<close>

text \<open>
  \<^verbatim>\<open>player_loop\<close> is modelled in the pieces it runs between two points where it
  waits.  A piece ends at one of these points:
  \<^item> \<open>Exited\<close>: the condition of the \<^verbatim>\<open>while\<close> was false and the task has ended;
  \<^item> \<open>Again\<close>: a \<^verbatim>\<open>continue\<close>, or the end of the body: back to the loop head;
  \<^item> \<open>Queue_check\<close>: at \<^verbatim>\<open>if not self.queue\<close>;
  \<^item> \<open>Waiting\<close>: blocked until a track is queued, for at most 30 seconds;
  \<^item> \<open>Playing\<close>: blocked until the completion signal of the track;
  \<^item> \<open>Grace\<close>: holding the panel of the last track for
    \<^verbatim>\<open>MUSIC_LAST_PLAYED_SECONDS\<close>;
  \<^item> \<open>Crashed\<close>: an exception has left the loop and the task has ended with it.
\<close>

datatype loop_point =
    Exited guild_player
  | Again guild_player
  | Queue_check guild_player
  | Waiting guild_player
  | Playing guild_player
  | Grace guild_player
  | Crashed py_error guild_player

text \<open>
  After a procedure awaited outside any \<^verbatim>\<open>try\<close>, at the end of a pass: the loop goes
  back to its head, or the exception of the procedure ends the task.
\<close>

fun continue_after :: "py_error option \<times> guild_player \<Rightarrow> loop_point" where
  "continue_after (None, p) = Again p"
| "continue_after (Some e, p) = Crashed e (p\<lparr>loop_task := False\<rparr>)"

text \<open>From the loop head to the queue check: the alone policy and the idle countdown.\<close>

definition loop_head :: "config \<Rightarrow> world \<Rightarrow> rat \<Rightarrow> guild_player \<Rightarrow> loop_point" where
  "loop_head cfg w now_mono p =
     (if stopped p then Exited (p\<lparr>loop_task := False\<rparr>)
      else if voice_connected p \<and> \<not> has_humans p
      then continue_after (safe_disconnect cfg w now_mono p)
      else if voice_connected p \<and> \<not> voice_busy p \<and> queue p = []
      then (case idle_started_mono p of
              None \<Rightarrow> Queue_check (p\<lparr>idle_started_mono := Some now_mono\<rparr>)
            | Some since \<Rightarrow>
                if 300 \<le> now_mono - since
                then (let p1 = p\<lparr>voice := None, current := None, idle_started_mono := None\<rparr>
                      in if DELETE_PANEL_ON_IDLE cfg then Again (delete_panel w p1)
                         else continue_after (post_or_update_panel cfg w p1))
                else Queue_check p)
      else Queue_check (p\<lparr>idle_started_mono := None\<rparr>))"

text \<open>
  Starting the audio: \<^verbatim>\<open>_on_track_start\<close>, \<^verbatim>\<open>voice.play\<close>, the panel, the
  refresher task, all under \<^verbatim>\<open>except Exception\<close>.  When starting fails the
  completion signal is set at once; when the panel update raises, the audio is playing
  already and the completion signal is set all the same.
\<close>

definition start_playback :: "config \<Rightarrow> world \<Rightarrow> rat \<Rightarrow> guild_player \<Rightarrow> guild_player" where
  "start_playback cfg w now_mono p =
     (let p1 = on_track_start now_mono p
      in if play_ok w
         then (let p2 = (case voice p1 of
                           None \<Rightarrow> p1
                         | Some v \<Rightarrow> p1\<lparr>voice := Some (v\<lparr>is_playing := True, is_paused := False\<rparr>)\<rparr>)
               in case post_or_update_panel cfg w p2 of
                    (Some e, p3) \<Rightarrow> p3\<lparr>next_event := True\<rparr>
                  | (None, p3) \<Rightarrow>
                      (bump_panel_if_needed cfg w now_mono True p3)\<lparr>ui_task := True\<rparr>)
         else p1\<lparr>next_event := True\<rparr>)"

text \<open>
  From \<^verbatim>\<open>self.current = self.queue.popleft()\<close> to the wait for the completion
  signal.  \<^verbatim>\<open>popleft\<close> raises on an empty queue.
\<close>

definition take_track ::
  "config \<Rightarrow> world \<Rightarrow> rat \<Rightarrow> int \<Rightarrow> guild_player \<Rightarrow> py_error + loop_point" where
  "take_track cfg w now_mono now_utc p =
     (case queue p of
        [] \<Rightarrow> Inl IndexError
      | t # rest \<Rightarrow>
          (let p1 = p\<lparr>current := Some t, queue := rest\<rparr>
           in if \<not> voice_connected p1 then Inr (Again (p1\<lparr>current := None\<rparr>))
              else
                (let p2 = update_history_for_track (current p1) (p1\<lparr>last_activity_mono := now_mono\<rparr>);
                     p3 = p2\<lparr>next_event := False, start_time_utc := Some now_utc\<rparr>
                 in Inr (Playing (start_playback cfg w now_mono p3)))))"

definition queue_check ::
  "config \<Rightarrow> world \<Rightarrow> rat \<Rightarrow> int \<Rightarrow> guild_player \<Rightarrow> py_error + loop_point" where
  "queue_check cfg w now_mono now_utc p =
     (if queue p = [] then Inr (Waiting (p\<lparr>queue_event := False\<rparr>))
      else take_track cfg w now_mono now_utc p)"

text \<open>The wait for a track timed out.\<close>

definition wait_timeout :: "config \<Rightarrow> world \<Rightarrow> guild_player \<Rightarrow> loop_point" where
  "wait_timeout cfg w p =
     Again (if DELETE_PANEL_ON_IDLE cfg \<and> current p = None then delete_panel w p else p)"

text \<open>
  The part of the loop after \<^verbatim>\<open>_on_track_end\<close> has returned: the stop flag, the
  repeat logic and the panel, up to the next \<^verbatim>\<open>continue\<close> or to the sleep that holds
  the last track visible.
\<close>

definition after_track_end :: "config \<Rightarrow> world \<Rightarrow> rat \<Rightarrow> guild_player \<Rightarrow> loop_point" where
  "after_track_end cfg w now_mono p5 =
     (if stopped p5
      then (if DELETE_PANEL_ON_IDLE cfg then Again (delete_panel w p5)
            else continue_after (post_or_update_panel cfg w (p5\<lparr>current := None\<rparr>)))
      else
        (let p6 = (case current p5 of
                     None \<Rightarrow> p5
                   | Some c \<Rightarrow>
                       if repeat_mode p5 = ''one'' then p5\<lparr>queue := c # queue p5\<rparr> else p5);
             p7 = (if queue p6 = [] \<and> repeat_mode p6 = ''all'' \<and> history p6 \<noteq> []
                   then p6\<lparr>queue := queue p6 @ history p6\<rparr> else p6)
         in if queue p7 \<noteq> [] then continue_after (post_or_update_panel cfg w p7)
            else (case post_or_update_panel cfg w p7 of
                    (Some e, p8) \<Rightarrow> Crashed e (p8\<lparr>loop_task := False\<rparr>)
                  | (None, p8) \<Rightarrow> Grace (bump_panel_if_needed cfg w now_mono True p8))))"

text \<open>
  After the completion signal: cleanup, \<^verbatim>\<open>_on_track_end\<close>, and the part above.  None
  of it runs under a \<^verbatim>\<open>try\<close>.
\<close>

definition after_track :: "config \<Rightarrow> world \<Rightarrow> rat \<Rightarrow> guild_player \<Rightarrow> loop_point" where
  "after_track cfg w now_mono p =
     (let p1 = p\<lparr>ui_task := False, start_time_utc := None\<rparr>;
          p2 = cleanup_temp_cookie_file p1;
          p3 = p2\<lparr>navigating_history := False, last_activity_mono := now_mono\<rparr>;
          p4 = (if queue p3 = [] \<and> voice p3 \<noteq> None \<and> \<not> voice_busy p3
                then p3\<lparr>current := None\<rparr> else p3)
      in case on_track_end cfg w now_mono p4 of
           (Some e, p5) \<Rightarrow> Crashed e (p5\<lparr>loop_task := False\<rparr>)
         | (None, p5) \<Rightarrow> after_track_end cfg w now_mono p5)"

definition after_grace :: "config \<Rightarrow> world \<Rightarrow> guild_player \<Rightarrow> loop_point" where
  "after_grace cfg w p =
     (if DELETE_PANEL_ON_IDLE cfg then Again (delete_panel w p)
      else continue_after (post_or_update_panel cfg w (p\<lparr>current := None\<rparr>)))"

text \<open>
  The body of the idle task, when its 300 seconds have passed.  The \<^verbatim>\<open>finally\<close>
  clause runs also when the disconnect ends with an exception, which then ends the task.
\<close>

definition idle_wait_expired ::
  "config \<Rightarrow> world \<Rightarrow> rat \<Rightarrow> guild_player \<Rightarrow> py_error option \<times> guild_player" where
  "idle_wait_expired cfg w now_mono p =
     (case (if voice_connected p \<and> \<not> voice_busy p \<and> queue_empty p
            then safe_disconnect cfg w now_mono p else (None, p)) of
        (err, p1) \<Rightarrow> (err, p1\<lparr>idle_task := False, idle_started_mono := None\<rparr>))"

subsection \<open>The step relation\<close>

text \<open>
  What the other tasks of the event loop may do to the player while the playback loop is
  suspended: the commands and buttons, the chat library acting on the voice client (a
  connect, a member joining or leaving, the end of the audio), the completion callback,
  the idle task and the panel tasks.  An exception that ends one of these tasks stays in
  that task; what the task did to the player before remains.
\<close>

inductive control :: "config \<Rightarrow> guild_player \<Rightarrow> guild_player \<Rightarrow> bool" for cfg where
  ctl_enqueue: "control cfg p (snd (enqueue cfg w now_mono query requester p))"
| ctl_stop: "control cfg p (stop p)"
| ctl_skip: "control cfg p (skip p)"
| ctl_previous: "play_previous p = Inr p' \<Longrightarrow> control cfg p p'"
| ctl_repeat: "m \<in> {''off'', ''one'', ''all''} \<Longrightarrow> control cfg p (p\<lparr>repeat_mode := m\<rparr>)"
| ctl_voice: "control cfg p (p\<lparr>voice := Some v\<rparr>)"
| ctl_completion: "control cfg p (p\<lparr>next_event := True\<rparr>)"
| ctl_idle_task: "idle_task p \<Longrightarrow> control cfg p (snd (idle_wait_expired cfg w now_mono p))"
| ctl_panel_channel: "control cfg p (p\<lparr>panel_channel_id := Some c\<rparr>)"
| ctl_panel_update: "control cfg p (snd (post_or_update_panel cfg w p))"
| ctl_panel_bump: "control cfg p (bump_panel_if_needed cfg w now_mono force p)"

text \<open>
  A configuration of the loop is a point and the player there.  The loop moves from one
  point to the next by the pieces above; the other tasks act only at the points where the
  loop is suspended, never between the loop head and the queue check.  A loop that has
  exited, or has ended with an exception, is started again by \<^verbatim>\<open>ensure_loop\<close>, and
  begins by clearing the stop flag.
\<close>

inductive loop_step :: "config \<Rightarrow> loop_point \<Rightarrow> loop_point \<Rightarrow> bool" for cfg where
  step_head: "loop_step cfg (Again p) (loop_head cfg w now_mono p)"
| step_check: "queue_check cfg w now_mono now_utc p = Inr pt \<Longrightarrow> loop_step cfg (Queue_check p) pt"
| step_timeout: "loop_step cfg (Waiting p) (wait_timeout cfg w p)"
| step_queued:
    "queue_event p \<Longrightarrow> take_track cfg w now_mono now_utc p = Inr pt \<Longrightarrow> loop_step cfg (Waiting p) pt"
| step_completed: "next_event p \<Longrightarrow> loop_step cfg (Playing p) (after_track cfg w now_mono p)"
| step_grace: "loop_step cfg (Grace p) (after_grace cfg w p)"
| step_restart: "loop_task p \<Longrightarrow> loop_step cfg (Exited p) (Again (p\<lparr>stopped := False\<rparr>))"
| step_restart_crashed:
    "loop_task p \<Longrightarrow> loop_step cfg (Crashed e p) (Again (p\<lparr>stopped := False\<rparr>))"
| others_again: "control cfg p p' \<Longrightarrow> loop_step cfg (Again p) (Again p')"
| others_waiting: "control cfg p p' \<Longrightarrow> loop_step cfg (Waiting p) (Waiting p')"
| others_playing: "control cfg p p' \<Longrightarrow> loop_step cfg (Playing p) (Playing p')"
| others_grace: "control cfg p p' \<Longrightarrow> loop_step cfg (Grace p) (Grace p')"
| others_exited: "control cfg p p' \<Longrightarrow> loop_step cfg (Exited p) (Exited p')"
| others_crashed: "control cfg p p' \<Longrightarrow> loop_step cfg (Crashed e p) (Crashed e p')"

text \<open>The configurations the loop of a new player can reach.\<close>

inductive reachable :: "config \<Rightarrow> loop_point \<Rightarrow> bool" for cfg where
  reach_init: "reachable cfg (Exited (guild_player_init g t0))"
| reach_step: "reachable cfg pt \<Longrightarrow> loop_step cfg pt pt' \<Longrightarrow> reachable cfg pt'"

fun player_at :: "loop_point \<Rightarrow> guild_player" where
  "player_at (Exited p) = p"
| "player_at (Again p) = p"
| "player_at (Queue_check p) = p"
| "player_at (Waiting p) = p"
| "player_at (Playing p) = p"
| "player_at (Grace p) = p"
| "player_at (Crashed e p) = p"

section \<open>What the panel procedures change, and when they raise\<close>

text \<open>
  A panel update ends with the error of the rendering exactly when the panel channel is
  found and the rendering raises.
\<close>

definition panel_update_raises :: "world \<Rightarrow> guild_player \<Rightarrow> bool" where
  "panel_update_raises w p = (resolve_panel_channel w p \<and> render_raises p)"

text \<open>Two players that differ at most in the id of the panel message and the time of its bump.\<close>

definition panel_only :: "guild_player \<Rightarrow> guild_player \<Rightarrow> bool" where
  "panel_only p p' =
     (\<exists>m b. p' = p\<lparr>panel_message_id := m, last_panel_bump_monotonic := b\<rparr>)"

lemma panel_only_both:
  "panel_only p (p\<lparr>panel_message_id := m, last_panel_bump_monotonic := b\<rparr>)"
  unfolding panel_only_def by blast

lemma panel_only_msg: "panel_only p (p\<lparr>panel_message_id := m\<rparr>)"
  unfolding panel_only_def
  by (rule exI [of _ m], rule exI [of _ "last_panel_bump_monotonic p"]) simp

lemma panel_only_refl: "panel_only p p"
  unfolding panel_only_def
  by (rule exI [of _ "panel_message_id p"], rule exI [of _ "last_panel_bump_monotonic p"]) simp

lemma panel_only_trans:
  assumes "panel_only p q" and "panel_only q r"
  shows "panel_only p r"
proof -
  from assms(1) obtain m b where q: "q = p\<lparr>panel_message_id := m, last_panel_bump_monotonic := b\<rparr>"
    unfolding panel_only_def by blast
  from assms(2) obtain m' b' where "r = q\<lparr>panel_message_id := m', last_panel_bump_monotonic := b'\<rparr>"
    unfolding panel_only_def by blast
  then have "r = p\<lparr>panel_message_id := m', last_panel_bump_monotonic := b'\<rparr>"
    using q by simp
  then show ?thesis by (simp add: panel_only_both)
qed

lemma panel_only_fields:
  assumes "panel_only p p'"
  shows "guild p' = guild p" "queue p' = queue p" "current p' = current p"
    "voice p' = voice p" "stopped p' = stopped p" "repeat_mode p' = repeat_mode p"
    "history p' = history p" "history_index p' = history_index p"
    "panel_channel_id p' = panel_channel_id p" "loop_task p' = loop_task p"
    "next_event p' = next_event p" "queue_event p' = queue_event p"
    "idle_task p' = idle_task p" "idle_started_mono p' = idle_started_mono p"
  using assms by (auto simp: panel_only_def)

lemma panel_only_raises:
  "panel_only p p' \<Longrightarrow> panel_update_raises w p' = panel_update_raises w p"
  by (auto simp: panel_only_def panel_update_raises_def resolve_panel_channel_def
        render_raises_def)

lemma panel_only_render: "panel_only p p' \<Longrightarrow> render_raises p' = render_raises p"
  by (auto simp: panel_only_def render_raises_def)

lemma send_panel_only: "panel_only p (snd (send_panel cfg w p))"
proof (cases "render_raises p")
  case True
  then show ?thesis by (simp add: send_panel_def panel_embed_raises panel_only_refl)
next
  case False
  then obtain emb where "panel_embed cfg (render_clock w) p = (Inr emb, p)"
    using panel_embed_returns by blast
  then show ?thesis
    by (simp add: send_panel_def panel_only_refl panel_only_msg split: option.splits)
qed

lemma send_panel_error:
  "fst (send_panel cfg w p) = (if render_raises p then Some AttributeError else None)"
proof (cases "render_raises p")
  case True
  then show ?thesis by (simp add: send_panel_def panel_embed_raises)
next
  case False
  then obtain emb where "panel_embed cfg (render_clock w) p = (Inr emb, p)"
    using panel_embed_returns by blast
  then show ?thesis using False by (simp add: send_panel_def split: option.splits)
qed

lemma post_or_update_panel_only: "panel_only p (snd (post_or_update_panel cfg w p))"
proof -
  have s: "panel_only p (snd (send_panel cfg w (p\<lparr>panel_message_id := None\<rparr>)))"
    using panel_only_msg send_panel_only by (rule panel_only_trans)
  show ?thesis
  proof (cases "render_raises p")
    case True
    then show ?thesis
      using s by (simp add: post_or_update_panel_def panel_embed_raises panel_only_refl
            send_panel_only)
  next
    case False
    then obtain emb where "panel_embed cfg (render_clock w) p = (Inr emb, p)"
      using panel_embed_returns by blast
    then show ?thesis
      using s by (simp add: post_or_update_panel_def panel_only_refl send_panel_only)
  qed
qed

lemma post_or_update_panel_error:
  "fst (post_or_update_panel cfg w p)
     = (if panel_update_raises w p then Some AttributeError else None)"
proof (cases "render_raises p")
  case True
  then have "render_raises (p\<lparr>panel_message_id := None\<rparr>)" by (simp add: render_raises_def)
  then show ?thesis
    using True
    by (simp add: post_or_update_panel_def panel_update_raises_def panel_embed_raises
          send_panel_error)
next
  case False
  then have n: "\<not> render_raises (p\<lparr>panel_message_id := None\<rparr>)" by (simp add: render_raises_def)
  from False obtain emb where "panel_embed cfg (render_clock w) p = (Inr emb, p)"
    using panel_embed_returns by blast
  then show ?thesis
    using False n
    by (simp add: post_or_update_panel_def panel_update_raises_def send_panel_error)
qed

lemma delete_panel_only: "panel_only p (delete_panel w p)"
  by (simp add: delete_panel_def panel_only_refl panel_only_msg)

lemma bump_panel_only: "panel_only p (bump_panel_if_needed cfg w now_mono force p)"
proof (cases "render_raises p")
  case True
  then show ?thesis
    by (simp add: bump_panel_if_needed_def Let_def panel_embed_raises panel_only_refl)
next
  case False
  then obtain emb where "panel_embed cfg (render_clock w) p = (Inr emb, p)"
    using panel_embed_returns by blast
  then show ?thesis
    by (simp add: bump_panel_if_needed_def Let_def panel_only_refl panel_only_both
          split: option.splits)
qed

lemmas post_or_update_panel_keeps = panel_only_fields [OF post_or_update_panel_only]
lemmas delete_panel_keeps = panel_only_fields [OF delete_panel_only]
lemmas bump_panel_keeps = panel_only_fields [OF bump_panel_only]
lemmas panel_ops_keep = post_or_update_panel_keeps delete_panel_keeps bump_panel_keeps

lemma safe_disconnect_clears:
  "voice (snd (safe_disconnect cfg w now_mono p)) = None"
  "current (snd (safe_disconnect cfg w now_mono p)) = None"
  "queue (snd (safe_disconnect cfg w now_mono p)) = []"
  "stopped (snd (safe_disconnect cfg w now_mono p)) = stopped p"
  "repeat_mode (snd (safe_disconnect cfg w now_mono p)) = repeat_mode p"
  "history (snd (safe_disconnect cfg w now_mono p)) = history p"
  "history_index (snd (safe_disconnect cfg w now_mono p)) = history_index p"
  "guild (snd (safe_disconnect cfg w now_mono p)) = guild p"
  "panel_channel_id (snd (safe_disconnect cfg w now_mono p)) = panel_channel_id p"
  "loop_task (snd (safe_disconnect cfg w now_mono p)) = loop_task p"
  by (simp_all add: safe_disconnect_def Let_def panel_ops_keep)

lemma panel_update_raises_fields:
  "guild p' = guild p \<Longrightarrow> panel_channel_id p' = panel_channel_id p \<Longrightarrow>
   panel_update_raises w p' = panel_update_raises w p"
  by (simp add: panel_update_raises_def resolve_panel_channel_def render_raises_def)

lemma safe_disconnect_error:
  "fst (safe_disconnect cfg w now_mono p)
     = (if \<not> DELETE_PANEL_ON_IDLE cfg \<and> panel_update_raises w p then Some AttributeError
        else None)"
proof -
  let ?p1 = "p\<lparr>voice := None, current := None, queue := [],
               idle_started_mono := None, last_activity_mono := now_mono\<rparr>"
  have "panel_update_raises w ?p1 = panel_update_raises w p"
    by (rule panel_update_raises_fields) simp_all
  then show ?thesis
    by (simp add: safe_disconnect_def Let_def post_or_update_panel_error)
qed

lemma start_idle_timer_keeps:
  "stopped (snd (start_idle_timer_if_needed cfg w now_mono p)) = stopped p"
  "repeat_mode (snd (start_idle_timer_if_needed cfg w now_mono p)) = repeat_mode p"
  "history (snd (start_idle_timer_if_needed cfg w now_mono p)) = history p"
  "history_index (snd (start_idle_timer_if_needed cfg w now_mono p)) = history_index p"
  "guild (snd (start_idle_timer_if_needed cfg w now_mono p)) = guild p"
  "panel_channel_id (snd (start_idle_timer_if_needed cfg w now_mono p)) = panel_channel_id p"
  "loop_task (snd (start_idle_timer_if_needed cfg w now_mono p)) = loop_task p"
  "queue p = [] \<Longrightarrow> queue (snd (start_idle_timer_if_needed cfg w now_mono p)) = []"
  "current p = None \<Longrightarrow> current (snd (start_idle_timer_if_needed cfg w now_mono p)) = None"
  by (simp_all add: start_idle_timer_if_needed_def cancel_idle_timer_def safe_disconnect_clears)

lemma start_idle_timer_error:
  "fst (start_idle_timer_if_needed cfg w now_mono p)
     = (if voice_connected p \<and> \<not> has_humans p \<and> \<not> DELETE_PANEL_ON_IDLE cfg
           \<and> panel_update_raises w p
        then Some AttributeError else None)"
proof -
  have "panel_update_raises w (cancel_idle_timer p) = panel_update_raises w p"
    by (rule panel_update_raises_fields) (simp_all add: cancel_idle_timer_def)
  then show ?thesis
    by (simp add: start_idle_timer_if_needed_def safe_disconnect_error)
qed

lemma start_idle_timer_listeners:
  "has_humans p \<or> \<not> voice_connected p \<Longrightarrow>
   queue (snd (start_idle_timer_if_needed cfg w now_mono p)) = queue p
   \<and> current (snd (start_idle_timer_if_needed cfg w now_mono p)) = current p
   \<and> voice (snd (start_idle_timer_if_needed cfg w now_mono p)) = voice p"
  by (auto simp: start_idle_timer_if_needed_def cancel_idle_timer_def)


section \<open>Repeat mode one\<close>

text \<open>
  The end of a pass with nothing queued and no current track, in a repeat mode other than
  \<open>all\<close>: the panel is updated and the loop holds it, or the update raises and ends the
  loop.
\<close>

lemma after_track_end_nothing_left:
  assumes "\<not> stopped q" and "queue q = []" and "current q = None" and "repeat_mode q \<noteq> ''all''"
  shows "\<exists>p'. after_track_end cfg w now_mono q
              = (if panel_update_raises w q then Crashed AttributeError p' else Grace p')
           \<and> queue p' = [] \<and> current p' = None"
proof -
  obtain err p8 where po: "post_or_update_panel cfg w q = (err, p8)"
    by (cases "post_or_update_panel cfg w q")
  have e: "err = (if panel_update_raises w q then Some AttributeError else None)"
    using post_or_update_panel_error [of cfg w q] po by simp
  have k: "queue p8 = []" "current p8 = None"
    using post_or_update_panel_keeps [where p = q and cfg = cfg and w = w] po assms by simp_all
  have eq: "after_track_end cfg w now_mono q
      = (case err of
           Some e \<Rightarrow> Crashed e (p8\<lparr>loop_task := False\<rparr>)
         | None \<Rightarrow> Grace (bump_panel_if_needed cfg w now_mono True p8))"
    using assms po by (simp add: after_track_end_def Let_def split: option.splits)
  show ?thesis
  proof (cases "panel_update_raises w q")
    case True
    then have "after_track_end cfg w now_mono q = Crashed AttributeError (p8\<lparr>loop_task := False\<rparr>)"
      using eq e by simp
    then show ?thesis using True k by simp
  next
    case False
    then have "after_track_end cfg w now_mono q = Grace (bump_panel_if_needed cfg w now_mono True p8)"
      using eq e by simp
    then show ?thesis using False k by (simp add: bump_panel_keeps)
  qed
qed

text \<open>
  With other tracks waiting, and a listener still in the channel (or no connection at
  all), the track that completed is put back at the head of the queue.
\<close>

lemma after_track_repeat_one_requeues:
  assumes "repeat_mode p = ''one''" and "\<not> stopped p" and "current p = Some c"
    and "queue p \<noteq> []" and "has_humans p \<or> \<not> voice_connected p"
  shows "\<exists>p'. after_track cfg w now_mono p
              = (if panel_update_raises w p then Crashed AttributeError p' else Again p')
           \<and> queue p' = c # queue p"
proof -
  let ?p4 = "p\<lparr>ui_task := False, start_time_utc := None, temp_cookie_path := None,
               navigating_history := False, last_activity_mono := now_mono\<rparr>"
  let ?r = "start_idle_timer_if_needed cfg w now_mono ?p4"
  let ?p5 = "snd ?r"
  let ?p7 = "?p5\<lparr>queue := c # queue ?p5\<rparr>"
  have hum: "has_humans ?p4 \<or> \<not> voice_connected ?p4"
    using assms(5) by (simp add: has_humans_def voice_connected_def)
  from start_idle_timer_listeners [OF hum, of cfg w now_mono]
  have q5: "queue ?p5 = queue p" "current ?p5 = Some c" using assms(3) by simp_all
  have s5: "\<not> stopped ?p5" "repeat_mode ?p5 = ''one''"
    using assms(1,2) by (simp_all add: start_idle_timer_keeps)
  have err: "fst ?r = None" using hum by (auto simp: start_idle_timer_error)
  have r5: "panel_update_raises w ?p7 = panel_update_raises w p"
    by (rule panel_update_raises_fields) (simp_all add: start_idle_timer_keeps)
  obtain e8 p8 where po: "post_or_update_panel cfg w ?p7 = (e8, p8)"
    by (cases "post_or_update_panel cfg w ?p7")
  have e: "e8 = (if panel_update_raises w p then Some AttributeError else None)"
    using post_or_update_panel_error [of cfg w ?p7] po r5 by simp
  have k: "queue p8 = c # queue p"
    using post_or_update_panel_keeps(2) [where p = ?p7 and cfg = cfg and w = w] po q5 by simp
  have "after_track cfg w now_mono p
      = (case ?r of
           (Some e, p5) \<Rightarrow> Crashed e (p5\<lparr>loop_task := False\<rparr>)
         | (None, p5) \<Rightarrow> after_track_end cfg w now_mono p5)"
    using assms(4)
    by (simp add: after_track_def Let_def cleanup_temp_cookie_file_def on_track_end_def)
  also have "\<dots> = after_track_end cfg w now_mono ?p5"
    using err by (simp add: case_prod_beta)
  also have "\<dots> = continue_after (e8, p8)"
    using q5 s5 po by (simp add: after_track_end_def Let_def)
  finally show ?thesis using e k by auto
qed

text \<open>
  C1 is not what the code does when the completed track was the only one.  The loop drops
  the current track as soon as the queue is empty and the voice client is neither playing
  nor paused, which is the state in which a track completes; the repeat logic that follows
  finds no current track and leaves the queue empty.  The pass ends in the hold of the
  panel, or, when a panel update raises on the way, with the loop ended: in both the
  queue is empty and there is no current track.
\<close>

theorem after_track_repeat_one_last_track_dropped:
  assumes "repeat_mode p = ''one''" and "\<not> stopped p" and "current p = Some c"
    and "queue p = []" and "voice p = Some v" and "\<not> is_playing v" and "\<not> is_paused v"
  shows "\<exists>p'. after_track cfg w now_mono p
              = (if panel_update_raises w p then Crashed AttributeError p' else Grace p')
           \<and> queue p' = [] \<and> current p' = None"
proof -
  let ?p4 = "p\<lparr>ui_task := False, start_time_utc := None, temp_cookie_path := None,
               navigating_history := False, last_activity_mono := now_mono, current := None\<rparr>"
  let ?r = "start_idle_timer_if_needed cfg w now_mono ?p4"
  let ?p5 = "snd ?r"
  have q5: "queue ?p5 = []" "current ?p5 = None"
    using assms(4) by (simp_all add: start_idle_timer_keeps)
  have s5: "\<not> stopped ?p5" "repeat_mode ?p5 \<noteq> ''all''"
    using assms(1,2) by (simp_all add: start_idle_timer_keeps)
  have r5: "panel_update_raises w ?p5 = panel_update_raises w p"
    by (rule panel_update_raises_fields) (simp_all add: start_idle_timer_keeps)
  have r4: "panel_update_raises w ?p4 = panel_update_raises w p"
    by (rule panel_update_raises_fields) simp_all
  have busy: "\<not> voice_busy (p\<lparr>ui_task := False, start_time_utc := None, temp_cookie_path := None,
               navigating_history := False, last_activity_mono := now_mono\<rparr>)"
    using assms(5,6,7) by (simp add: voice_busy_def)
  have at: "after_track cfg w now_mono p
      = (case ?r of
           (Some e, p5) \<Rightarrow> Crashed e (p5\<lparr>loop_task := False\<rparr>)
         | (None, p5) \<Rightarrow> after_track_end cfg w now_mono p5)"
    using assms(4,5) busy
    by (simp add: after_track_def Let_def cleanup_temp_cookie_file_def on_track_end_def)
  show ?thesis
  proof (cases "fst ?r")
    case None
    then have "after_track cfg w now_mono p = after_track_end cfg w now_mono ?p5"
      using at by (simp add: case_prod_beta)
    then show ?thesis
      using after_track_end_nothing_left [OF s5(1) q5 s5(2), of cfg w now_mono] r5 by simp
  next
    case (Some e)
    then have e: "e = AttributeError" "panel_update_raises w p"
      using start_idle_timer_error [of cfg w now_mono ?p4] r4 by (auto split: if_splits)
    have "after_track cfg w now_mono p = Crashed AttributeError (?p5\<lparr>loop_task := False\<rparr>)"
      using at Some e(1) by (simp add: case_prod_beta)
    then show ?thesis using e(2) q5 by simp
  qed
qed

definition listener :: member where
  "listener = \<lparr>member_id = 7, is_bot = False, mention = ''<@7>''\<rparr>"

definition robot :: member where
  "robot = \<lparr>member_id = 1, is_bot = True, mention = ''<@1>''\<rparr>"

definition voice_done :: "member list \<Rightarrow> voice_client" where
  "voice_done ms = \<lparr>is_connected = True, is_playing = False, is_paused = False,
     channel = Some \<lparr>members = ms, bitrate = 64000\<rparr>\<rparr>"

text \<open>Repeat mode \<open>one\<close>, the only track has just completed, a listener is present.\<close>

definition player_repeat_one :: guild_player where
  "player_repeat_one = (guild_player_init guild_0 0)
     \<lparr>repeat_mode := ''one'', current := Some track_200, next_event := True,
      voice := Some (voice_done [robot, listener]),
      history := [track_200], history_index := 0, loop_task := True\<rparr>"

theorem after_track_repeat_one_last_track_dropped_witness:
  "repeat_mode player_repeat_one = ''one'' \<and> \<not> stopped player_repeat_one
   \<and> current player_repeat_one = Some track_200 \<and> has_humans player_repeat_one
   \<and> (\<exists>p'. after_track default_config world_down 1 player_repeat_one = Grace p'
          \<and> queue p' = [] \<and> current p' = None)"
proof -
  have f: "repeat_mode player_repeat_one = ''one''" "\<not> stopped player_repeat_one"
    "current player_repeat_one = Some track_200" "queue player_repeat_one = []"
    "voice player_repeat_one = Some (voice_done [robot, listener])"
    "\<not> is_playing (voice_done [robot, listener])" "\<not> is_paused (voice_done [robot, listener])"
    by (simp_all add: player_repeat_one_def guild_player_init_def voice_done_def)
  have h: "has_humans player_repeat_one"
    by (simp add: has_humans_def player_repeat_one_def voice_done_def listener_def robot_def)
  have n: "\<not> panel_update_raises world_down player_repeat_one"
    by (simp add: panel_update_raises_def resolve_panel_channel_def world_down_def)
  from after_track_repeat_one_last_track_dropped [OF f, of default_config world_down 1] f h n
  show ?thesis by simp
qed

section \<open>What the loop keeps true of history and current track\<close>

text \<open>
  The states in which \<open>play_previous\<close> is looked at above: the cursor is valid, and
  there is no current track while the history is empty.
\<close>

definition nav_inv :: "guild_player \<Rightarrow> bool" where
  "nav_inv p = (history_ok p \<and> (history p = [] \<longrightarrow> current p = None))"

text \<open>An operation that leaves the history alone and at most drops the current track.\<close>

definition nav_keeps :: "guild_player \<Rightarrow> guild_player \<Rightarrow> bool" where
  "nav_keeps p p' =
     (history p' = history p \<and> history_index p' = history_index p
      \<and> (current p' = current p \<or> current p' = None))"

lemma nav_keeps_inv: "nav_keeps p p' \<Longrightarrow> nav_inv p \<Longrightarrow> nav_inv p'"
  by (auto simp: nav_keeps_def nav_inv_def history_ok_def)

lemma nav_keeps_trans: "nav_keeps p q \<Longrightarrow> nav_keeps q r \<Longrightarrow> nav_keeps p r"
  by (auto simp: nav_keeps_def)

lemma nav_keeps_fields:
  "history p' = history p \<Longrightarrow> history_index p' = history_index p \<Longrightarrow>
   current p' = current p \<or> current p' = None \<Longrightarrow> nav_keeps p p'"
  by (simp add: nav_keeps_def)

lemma nav_keeps_post: "nav_keeps p (snd (post_or_update_panel cfg w p))"
  by (simp add: nav_keeps_def post_or_update_panel_keeps)

lemma nav_keeps_loop_task: "nav_keeps p (p\<lparr>loop_task := b\<rparr>)"
  by (simp add: nav_keeps_def)

lemma nav_keeps_continue_after:
  "nav_keeps p (snd r) \<Longrightarrow> nav_keeps p (player_at (continue_after r))"
  by (cases r, cases "fst r") (auto simp: nav_keeps_def)

lemma nav_keeps_delete: "nav_keeps p (delete_panel w p)"
  by (simp add: nav_keeps_def delete_panel_keeps)

lemma nav_keeps_bump: "nav_keeps p (bump_panel_if_needed cfg w now_mono force p)"
  by (simp add: nav_keeps_def bump_panel_keeps)

lemma nav_keeps_safe_disconnect: "nav_keeps p (snd (safe_disconnect cfg w now_mono p))"
  by (simp add: nav_keeps_def safe_disconnect_clears)

lemma nav_keeps_idle_timer: "nav_keeps p (snd (start_idle_timer_if_needed cfg w now_mono p))"
  by (simp add: nav_keeps_def start_idle_timer_if_needed_def cancel_idle_timer_def
        safe_disconnect_clears)

lemma nav_keeps_queue_updated: "nav_keeps p (snd (on_queue_updated cfg w now_mono p))"
  using nav_keeps_idle_timer [of p cfg w now_mono]
  by (simp add: on_queue_updated_def cancel_idle_timer_def nav_keeps_def)

lemma nav_keeps_ytdl_opts: "nav_keeps p (ytdl_opts cfg w p)"
  by (simp add: nav_keeps_def ytdl_opts_def ensure_temp_cookie_file_def split: option.splits)

lemma nav_keeps_admit: "nav_keeps p (snd (admit requester ts p))"
proof (induction ts arbitrary: p)
  case Nil
  then show ?case by (simp add: nav_keeps_def)
next
  case (Cons t ts)
  let ?wrapped = "\<lparr>seq = Some (seq_counter p + 1), title = title t, stream_url = stream_url t,
      webpage_url = webpage_url t, duration = duration t, thumbnail = thumbnail t,
      requested_by = requester\<rparr>"
  let ?p = "p\<lparr>seq_counter := seq_counter p + 1, queue := queue p @ [?wrapped]\<rparr>"
  have "nav_keeps p ?p" by (simp add: nav_keeps_def)
  from nav_keeps_trans [OF this Cons.IH [of ?p]] Cons.IH [of p]
  show ?case by (simp add: Let_def case_prod_beta)
qed

lemma nav_keeps_enqueue: "nav_keeps p (snd (enqueue cfg w now_mono query requester p))"
proof -
  let ?p0 = "ytdl_opts cfg w p"
  have k0: "nav_keeps p ?p0" by (rule nav_keeps_ytdl_opts)
  show ?thesis
  proof (cases "create_tracks_from_query cfg w query")
    case (Inl e)
    then show ?thesis using k0 by (simp add: enqueue_def Let_def)
  next
    case (Inr tracks)
    let ?p1 = "snd (admit requester tracks ?p0)"
    let ?p2 = "(ensure_loop (?p1\<lparr>queue_event := True\<rparr>))\<lparr>last_activity_mono := now_mono\<rparr>"
    have k1: "nav_keeps p ?p1" using k0 nav_keeps_admit by (rule nav_keeps_trans)
    have "nav_keeps ?p1 ?p2" by (simp add: nav_keeps_def ensure_loop_def)
    with k1 have k2: "nav_keeps p ?p2" by (rule nav_keeps_trans)
    have k3: "nav_keeps p (snd (on_queue_updated cfg w now_mono ?p2))"
      using k2 nav_keeps_queue_updated by (rule nav_keeps_trans)
    show ?thesis
      using Inr k1 k3
      by (simp add: enqueue_def Let_def case_prod_beta split: option.splits)
  qed
qed

lemma nav_keeps_stop: "nav_keeps p (stop p)"
  by (cases "voice p") (simp_all add: nav_keeps_def stop_def Let_def cleanup_temp_cookie_file_def)

lemma nav_keeps_skip: "nav_keeps p (skip p)"
  by (simp add: nav_keeps_def skip_fields)

lemma nav_keeps_idle_wait: "nav_keeps p (snd (idle_wait_expired cfg w now_mono p))"
  using nav_keeps_safe_disconnect [of p cfg w now_mono]
  by (simp add: idle_wait_expired_def Let_def nav_keeps_def case_prod_beta)

lemma nav_inv_play_previous:
  assumes "play_previous p = Inr p'" and "nav_inv p"
  shows "nav_inv p'"
proof (cases "history p = [] \<or> history_index p \<le> 0")
  case True
  then have "history p' = history p \<and> history_index p' = history_index p
      \<and> current p' = current p"
    using assms(1) by (auto simp: play_previous_def skip_fields split: option.splits if_splits)
  then show ?thesis using assms(2) by (simp add: nav_inv_def history_ok_def)
next
  case False
  then have "history p' = history p \<and> history_index p' = history_index p - 1
      \<and> current p' = current p"
    using assms(1) by (auto simp: play_previous_def skip_fields Let_def split: if_splits)
  then show ?thesis using assms(2) False by (auto simp: nav_inv_def history_ok_def)
qed

lemma nav_inv_control:
  assumes "control cfg p p'" and "nav_inv p"
  shows "nav_inv p'"
  using assms
proof (cases rule: control.cases)
  case (ctl_enqueue w now_mono query requester)
  then show ?thesis using nav_keeps_enqueue nav_keeps_inv assms(2) by blast
next
  case ctl_stop
  then show ?thesis using nav_keeps_stop nav_keeps_inv assms(2) by blast
next
  case ctl_skip
  then show ?thesis using nav_keeps_skip nav_keeps_inv assms(2) by blast
next
  case ctl_previous
  then show ?thesis using nav_inv_play_previous assms(2) by blast
next
  case (ctl_idle_task w now_mono)
  then show ?thesis using nav_keeps_idle_wait nav_keeps_inv assms(2) by blast
next
  case (ctl_panel_update w)
  then show ?thesis using nav_keeps_post nav_keeps_inv assms(2) by blast
next
  case (ctl_panel_bump w now_mono force)
  then show ?thesis using nav_keeps_bump nav_keeps_inv assms(2) by blast
qed (use assms(2) in \<open>simp_all add: nav_inv_def history_ok_def\<close>)

lemma update_history_nonempty: "history (update_history_for_track (Some t) p) \<noteq> []"
proof (cases "existing_idx (seq t) (history p)")
  case None
  then show ?thesis by (simp add: update_history_for_track_def Let_def)
next
  case (Some i)
  then have "i < length (history p)" by (rule existing_idx_less)
  then show ?thesis using Some by (auto simp: update_history_for_track_def)
qed

lemma update_history_current:
  "current (update_history_for_track tr p) = current p"
  by (simp add: update_history_for_track_def Let_def split: option.splits)

lemma nav_keeps_start_playback: "nav_keeps p (start_playback cfg w now_mono p)"
proof -
  let ?p1 = "on_track_start now_mono p"
  have k1: "nav_keeps p ?p1"
    by (simp add: nav_keeps_def on_track_start_def cancel_idle_timer_def)
  show ?thesis
  proof (cases "play_ok w")
    case False
    then show ?thesis using k1 by (simp add: start_playback_def Let_def nav_keeps_def)
  next
    case True
    let ?p2 = "case voice ?p1 of None \<Rightarrow> ?p1
               | Some v \<Rightarrow> ?p1\<lparr>voice := Some (v\<lparr>is_playing := True, is_paused := False\<rparr>)\<rparr>"
    let ?p3 = "snd (post_or_update_panel cfg w ?p2)"
    have "nav_keeps ?p1 ?p2" by (simp add: nav_keeps_def split: option.splits)
    with k1 have "nav_keeps p ?p2" by (rule nav_keeps_trans)
    then have k3: "nav_keeps p ?p3"
      using nav_keeps_post by (rule nav_keeps_trans)
    then have k4: "nav_keeps p (bump_panel_if_needed cfg w now_mono True ?p3)"
      using nav_keeps_bump by (rule nav_keeps_trans)
    have "start_playback cfg w now_mono p
        = (case fst (post_or_update_panel cfg w ?p2) of
             Some e \<Rightarrow> ?p3\<lparr>next_event := True\<rparr>
           | None \<Rightarrow> (bump_panel_if_needed cfg w now_mono True ?p3)\<lparr>ui_task := True\<rparr>)"
      using True by (simp add: start_playback_def Let_def case_prod_beta split: option.splits)
    then show ?thesis using k3 k4 by (simp add: nav_keeps_def split: option.splits)
  qed
qed

lemma nav_inv_take_track:
  assumes "take_track cfg w now_mono now_utc p = Inr pt" and "nav_inv p"
  shows "nav_inv (player_at pt)"
proof (cases "queue p")
  case Nil
  then show ?thesis using assms(1) by (simp add: take_track_def)
next
  case (Cons t rest)
  let ?p1 = "p\<lparr>current := Some t, queue := rest\<rparr>"
  show ?thesis
  proof (cases "voice_connected ?p1")
    case False
    then have "pt = Again (?p1\<lparr>current := None\<rparr>)"
      using assms(1) Cons by (simp add: take_track_def Let_def)
    then show ?thesis using assms(2) by (simp add: nav_inv_def history_ok_def)
  next
    case True
    let ?p2 = "update_history_for_track (Some t) (?p1\<lparr>last_activity_mono := now_mono\<rparr>)"
    let ?p3 = "?p2\<lparr>next_event := False, start_time_utc := Some now_utc\<rparr>"
    have "history_ok (?p1\<lparr>last_activity_mono := now_mono\<rparr>)"
      using assms(2) by (simp add: nav_inv_def history_ok_def)
    then have "history_ok ?p2" by (rule update_history_ok)
    then have "nav_inv ?p3"
      using update_history_nonempty [of t "?p1\<lparr>last_activity_mono := now_mono\<rparr>"]
      by (simp add: nav_inv_def history_ok_def)
    then have "nav_inv (start_playback cfg w now_mono ?p3)"
      using nav_keeps_start_playback nav_keeps_inv by blast
    moreover have "pt = Playing (start_playback cfg w now_mono ?p3)"
      using assms(1) Cons True by (simp add: take_track_def Let_def)
    ultimately show ?thesis by simp
  qed
qed

lemma nav_keeps_post_drop:
  "nav_keeps p (player_at (continue_after (post_or_update_panel cfg w (p\<lparr>current := None\<rparr>))))"
proof -
  have "nav_keeps p (p\<lparr>current := None\<rparr>)" by (simp add: nav_keeps_def)
  then have "nav_keeps p (snd (post_or_update_panel cfg w (p\<lparr>current := None\<rparr>)))"
    using nav_keeps_post by (rule nav_keeps_trans)
  then show ?thesis by (rule nav_keeps_continue_after)
qed

lemma nav_keeps_loop_head: "nav_keeps p (player_at (loop_head cfg w now_mono p))"
proof -
  let ?p1 = "p\<lparr>voice := None, current := None, idle_started_mono := None\<rparr>"
  have a: "nav_keeps p (player_at (continue_after (safe_disconnect cfg w now_mono p)))"
    using nav_keeps_safe_disconnect by (rule nav_keeps_continue_after)
  have k1: "nav_keeps p ?p1" by (simp add: nav_keeps_def)
  then have "nav_keeps p (snd (post_or_update_panel cfg w ?p1))"
    using nav_keeps_post by (rule nav_keeps_trans)
  then have b: "nav_keeps p (player_at (continue_after (post_or_update_panel cfg w ?p1)))"
    by (rule nav_keeps_continue_after)
  have c: "nav_keeps p (delete_panel w ?p1)"
    using k1 nav_keeps_delete by (rule nav_keeps_trans)
  have d: "nav_keeps p (p\<lparr>idle_started_mono := x\<rparr>)" "nav_keeps p p" for x
    by (simp_all add: nav_keeps_def)
  show ?thesis
    using a b c d by (simp add: loop_head_def Let_def nav_keeps_loop_task split: option.splits)
qed

lemma nav_keeps_after_track_end: "nav_keeps q (player_at (after_track_end cfg w now_mono q))"
proof (cases "stopped q")
  case True
  then show ?thesis
    using nav_keeps_post_drop [of q cfg w] nav_keeps_delete [of q w]
    by (simp add: after_track_end_def)
next
  case False
  define p6 where "p6 = (case current q of
                     None \<Rightarrow> q
                   | Some c \<Rightarrow>
                       if repeat_mode q = ''one'' then q\<lparr>queue := c # queue q\<rparr> else q)"
  define p7 where "p7 = (if queue p6 = [] \<and> repeat_mode p6 = ''all'' \<and> history p6 \<noteq> []
                   then p6\<lparr>queue := queue p6 @ history p6\<rparr> else p6)"
  have "nav_keeps q p6" by (simp add: p6_def nav_keeps_def split: option.splits)
  moreover have "nav_keeps p6 p7" by (simp add: p7_def nav_keeps_def)
  ultimately have k7: "nav_keeps q p7" by (rule nav_keeps_trans)
  then have k8: "nav_keeps q (snd (post_or_update_panel cfg w p7))"
    using nav_keeps_post by (rule nav_keeps_trans)
  then have a: "nav_keeps q (player_at (continue_after (post_or_update_panel cfg w p7)))"
    by (rule nav_keeps_continue_after)
  have b: "nav_keeps q (bump_panel_if_needed cfg w now_mono True (snd (post_or_update_panel cfg w p7)))"
    using k8 nav_keeps_bump by (rule nav_keeps_trans)
  have c: "nav_keeps q ((snd (post_or_update_panel cfg w p7))\<lparr>loop_task := False\<rparr>)"
    using k8 nav_keeps_loop_task by (rule nav_keeps_trans)
  have "after_track_end cfg w now_mono q
      = (if queue p7 \<noteq> [] then continue_after (post_or_update_panel cfg w p7)
         else (case fst (post_or_update_panel cfg w p7) of
                 Some e \<Rightarrow> Crashed e ((snd (post_or_update_panel cfg w p7))\<lparr>loop_task := False\<rparr>)
               | None \<Rightarrow> Grace (bump_panel_if_needed cfg w now_mono True
                                  (snd (post_or_update_panel cfg w p7)))))"
    using False unfolding p7_def p6_def
    by (simp add: after_track_end_def Let_def case_prod_beta split: option.splits)
  then show ?thesis using a b c by (simp split: option.splits)
qed

lemma nav_keeps_after_track: "nav_keeps p (player_at (after_track cfg w now_mono p))"
proof -
  define p3 where "p3 = p\<lparr>ui_task := False, start_time_utc := None, temp_cookie_path := None,
               navigating_history := False, last_activity_mono := now_mono\<rparr>"
  define p4 where "p4 = (if queue p3 = [] \<and> voice p3 \<noteq> None \<and> \<not> voice_busy p3
             then p3\<lparr>current := None\<rparr> else p3)"
  define r where "r = start_idle_timer_if_needed cfg w now_mono p4"
  have eq: "after_track cfg w now_mono p
      = (case fst r of
           Some e \<Rightarrow> Crashed e ((snd r)\<lparr>loop_task := False\<rparr>)
         | None \<Rightarrow> after_track_end cfg w now_mono (snd r))"
    unfolding r_def p4_def p3_def
    by (simp only: after_track_def Let_def cleanup_temp_cookie_file_def on_track_end_def
          case_prod_beta)
  have "nav_keeps p p3" by (simp add: nav_keeps_def p3_def)
  moreover have "nav_keeps p3 p4" by (simp add: nav_keeps_def p4_def)
  ultimately have "nav_keeps p p4" by (rule nav_keeps_trans)
  then have k5: "nav_keeps p (snd r)"
    unfolding r_def using nav_keeps_idle_timer by (rule nav_keeps_trans)
  then have a: "nav_keeps p ((snd r)\<lparr>loop_task := False\<rparr>)"
    using nav_keeps_loop_task by (rule nav_keeps_trans)
  have b: "nav_keeps p (player_at (after_track_end cfg w now_mono (snd r)))"
    using k5 nav_keeps_after_track_end by (rule nav_keeps_trans)
  show ?thesis unfolding eq using a b by (simp split: option.splits)
qed

lemma nav_inv_loop_step:
  assumes "loop_step cfg pt pt'" and "nav_inv (player_at pt)"
  shows "nav_inv (player_at pt')"
  using assms
proof (cases rule: loop_step.cases)
  case (step_head p w now_mono)
  then show ?thesis using nav_keeps_loop_head nav_keeps_inv assms(2) by fastforce
next
  case (step_check w now_mono now_utc p)
  then show ?thesis
    using nav_inv_take_track [of cfg w now_mono now_utc p pt'] assms(2)
    by (auto simp: queue_check_def nav_inv_def history_ok_def split: if_splits)
next
  case (step_timeout p w)
  then show ?thesis
    using assms(2) nav_keeps_delete [of p w] nav_keeps_inv
    by (auto simp: wait_timeout_def)
next
  case (step_queued p w now_mono now_utc)
  then show ?thesis using nav_inv_take_track assms(2) by fastforce
next
  case (step_completed p w now_mono)
  then show ?thesis using nav_keeps_after_track nav_keeps_inv assms(2) by fastforce
next
  case (step_grace p w)
  then show ?thesis
    using assms(2) nav_keeps_delete [of p w] nav_keeps_post_drop [of p cfg w] nav_keeps_inv
    by (auto simp: after_grace_def)
next
  case (step_restart p)
  then show ?thesis using assms(2) by (simp add: nav_inv_def history_ok_def)
next
  case (step_restart_crashed p e)
  then show ?thesis using assms(2) by (simp add: nav_inv_def history_ok_def)
next
  case (others_again p p')
  then show ?thesis using nav_inv_control assms(2) by fastforce
next
  case (others_waiting p p')
  then show ?thesis using nav_inv_control assms(2) by fastforce
next
  case (others_playing p p')
  then show ?thesis using nav_inv_control assms(2) by fastforce
next
  case (others_grace p p')
  then show ?thesis using nav_inv_control assms(2) by fastforce
next
  case (others_exited p p')
  then show ?thesis using nav_inv_control assms(2) by fastforce
next
  case (others_crashed p p' e)
  then show ?thesis using nav_inv_control assms(2) by fastforce
qed

text \<open>
  Wherever the loop of a new player stands, and whatever the commands have done in
  between, the history is bounded with a valid cursor and a current track implies a
  history that is not empty.
\<close>

lemma reachable_nav_inv: "reachable cfg pt \<Longrightarrow> nav_inv (player_at pt)"
proof (induction rule: reachable.induct)
  case (reach_init g t0)
  then show ?case by (simp add: nav_inv_def history_ok_def guild_player_init_def)
next
  case (reach_step pt pt')
  then show ?case using nav_inv_loop_step by blast
qed

section \<open>The alone policy\<close>
















subsection \<open>A player left alone while its only track plays, in repeat mode all\<close>



















end
